theory Spec2Isabelle
  imports Complex_Main "HOL-Library.Word"
begin

unbundle bit_operations_syntax

section \<open>The step timer (timer-avr.c)\<close>

text \<open>
  The AVR build of \<^verbatim>\<open>timer-avr.c\<close> with \<^verbatim>\<open>MOTHERBOARD\<close> defined. Timer 1 runs free;
  output compare A is the step timer. The registers the two functions touch and the one
  shared variable are the state:

  \<^item> \<open>OCR1A\<close>, the 16-bit compare register of the step timer;
  \<^item> \<open>TCNT1\<close>, the 16-bit counter (read only by the code);
  \<^item> \<open>TIMSK1\<close>, the 8-bit interrupt mask register of timer 1;
  \<^item> \<open>SREG_I\<close>, the global interrupt enable flag (\<^verbatim>\<open>cli()\<close> clears it);
  \<^item> \<open>next_step_time\<close>, \<^verbatim>\<open>uint32_t next_step_time\<close>.

  Integer types are those of avr-gcc: \<^verbatim>\<open>int\<close> has 16 bits, so an expression over
  \<^verbatim>\<open>uint16_t\<close> operands and \<^verbatim>\<open>int\<close> literals is computed in 16-bit unsigned arithmetic,
  and one that has a \<^verbatim>\<open>uint32_t\<close> or \<^verbatim>\<open>int32_t\<close> operand in 32 bits.
\<close>

record timer =
  OCR1A :: "16 word"
  TCNT1 :: "16 word"
  TIMSK1 :: "8 word"
  SREG_I :: bool
  next_step_time :: "32 word"

text \<open>
  What the preprocessor and the device header decide: whether \<^verbatim>\<open>ACCELERATION_TEMPORAL\<close>
  is defined, and the bit number \<^verbatim>\<open>OCIE1A\<close> of the compare A interrupt enable in
  \<^verbatim>\<open>TIMSK1\<close> (from the device header, which is not part of the sources at hand; the
  theorems hold for every bit number).
\<close>

record build =
  ACCELERATION_TEMPORAL :: bool
  OCIE1A :: nat

text \<open>\<^verbatim>\<open>#define MASK(PIN) (1 << PIN)\<close>, on an 8-bit register.\<close>

definition MASK :: "nat \<Rightarrow> 8 word" where
  "MASK pin = push_bit pin 1"

text \<open>
  \<^verbatim>\<open>uint8_t timer_set(int32_t delay, uint8_t check_short)\<close>. The argument \<open>delay\<close> is
  the 32-bit pattern of the \<^verbatim>\<open>int32_t\<close>; \<open>sint\<close> reads it as signed. The short-request
  test \<^verbatim>\<open>(current_time - step_start) + 200 > delay\<close> has a 16-bit unsigned left side
  (both operands are \<^verbatim>\<open>uint16_t\<close>, and 200 is an \<^verbatim>\<open>int\<close>), which is then converted to
  \<^verbatim>\<open>long\<close> and compared as signed. The function returns its flag together with the
  new state.
\<close>

definition timer_set :: "build \<Rightarrow> 32 word \<Rightarrow> 8 word \<Rightarrow> timer \<Rightarrow> 8 word \<times> timer" where
  "timer_set b delay check_short s0 =
    (let s1 = s0\<lparr>SREG_I := False\<rparr>;
         step_start = OCR1A s1;
         s2 = s1\<lparr>next_step_time := delay\<rparr>
     in
       if ACCELERATION_TEMPORAL b \<and> check_short \<noteq> 0 \<and>
          sint delay < uint ((TCNT1 s2 - step_start) + 200)
       then (1, s2)
       else
         let s3 =
           (if next_step_time s2 < 65536 then
              s2\<lparr>OCR1A := ucast ((next_step_time s2 + ucast step_start) AND 0xFFFF)\<rparr>
            else if next_step_time s2 < 75536 then
              s2\<lparr>OCR1A := (step_start - 10000) AND 0xFFFF,
                 next_step_time := next_step_time s2 + 10000\<rparr>
            else
              s2\<lparr>OCR1A := step_start\<rparr>)
         in (0, s3\<lparr>TIMSK1 := TIMSK1 s3 OR MASK (OCIE1A b)\<rparr>))"

text \<open>
  \<^verbatim>\<open>ISR(TIMER1_COMPA_vect)\<close>. \<^verbatim>\<open>queue_step()\<close> is defined in \<^verbatim>\<open>dda_queue.c\<close>, which is
  not among the sources at hand, so the handler takes it as a parameter: a function on
  the state, called with the state the handler has prepared. The writes to
  \<^verbatim>\<open>DEBUG_LED_PIN\<close> (optional, and no register of this model) are left out, and so is
  what the hardware does to the global interrupt flag on entry to and return from a
  handler, which is no statement of the C function.
\<close>

definition ISR_TIMER1_COMPA :: "build \<Rightarrow> (timer \<Rightarrow> timer) \<Rightarrow> timer \<Rightarrow> timer" where
  "ISR_TIMER1_COMPA b queue_step s0 =
    (if next_step_time s0 < 65536 then
       queue_step (s0\<lparr>TIMSK1 := TIMSK1 s0 AND NOT (MASK (OCIE1A b))\<rparr>)
     else
       let s1 = s0\<lparr>next_step_time := next_step_time s0 - 65536\<rparr> in
         if next_step_time s1 < 65536 then
           s1\<lparr>OCR1A := ucast ((ucast (OCR1A s1) + next_step_time s1) AND 0xFFFF)\<rparr>
         else if next_step_time s1 < 75536 then
           s1\<lparr>OCR1A := (OCR1A s1 - 10000) AND 0xFFFF,
              next_step_time := next_step_time s1 + 10000\<rparr>
         else s1)"


subsection \<open>Compare matches\<close>

text \<open>
  Modelled from the spec: the hardware's side of the step compare, which is no code of the
  repository. The counter runs free over \<open>COUNTER_RANGE = 65536\<close> values and the compare
  interrupt is raised when it reaches \<open>OCR1A\<close>; the anchor is the counter value at which
  the previous step compare fired, and a compare value equal to the anchor is one counter
  wrap away. \<open>ticks_to_match prev new\<close> is the number of counter ticks from the match at
  \<open>prev\<close> to the next match, at \<open>new\<close>. It takes the handler (or \<open>timer_set\<close>) to have
  written \<open>new\<close> before the counter gets there.
\<close>

definition ticks_to_match :: "16 word \<Rightarrow> 16 word \<Rightarrow> nat" where
  "ticks_to_match prev new = (if new = prev then 65536 else unat (new - prev))"

text \<open>
  The compare interrupts that follow a call of \<open>timer_set\<close>, up to and including the one
  that takes the real step: \<open>compare_fires b qs prev s\<close> lists, for each of them, the ticks
  since the compare match before it, where \<open>prev\<close> is the compare value of the last match
  and \<open>s\<close> the state left by \<open>timer_set\<close> or by the handler. Every entry but the last is
  a fire that finds \<open>next_step_time \<ge> 65536\<close>; the last is the real step. The sum of the
  list is the time from the anchor to the real step.
\<close>

function compare_fires :: "build \<Rightarrow> (timer \<Rightarrow> timer) \<Rightarrow> 16 word \<Rightarrow> timer \<Rightarrow> nat list" where
  "compare_fires b qs prev s =
     ticks_to_match prev (OCR1A s) #
       (if next_step_time s < 65536 then []
        else compare_fires b qs (OCR1A s) (ISR_TIMER1_COMPA b qs s))"
  by pat_completeness auto
termination
proof (relation "measure (\<lambda>(b, qs, prev, s). unat (next_step_time s))")
  show "wf (measure (\<lambda>(b, qs, prev, s). unat (next_step_time s)))" by simp
next
  fix b :: build and qs :: "timer \<Rightarrow> timer" and prev :: "16 word" and s :: timer
  assume "\<not> next_step_time s < 65536"
  then have "unat (next_step_time (ISR_TIMER1_COMPA b qs s)) < unat (next_step_time s)"
    by (simp add: ISR_TIMER1_COMPA_def Let_def) unat_arith
  then show "((b, qs, OCR1A s, ISR_TIMER1_COMPA b qs s), (b, qs, prev, s))
      \<in> measure (\<lambda>(b, qs, prev, s). unat (next_step_time s))"
    by simp
qed

declare compare_fires.simps [simp del]

text \<open>An AVR build with \<^verbatim>\<open>ACCELERATION_TEMPORAL\<close>, for the examples.\<close>

abbreviation avr_temporal :: build where
  "avr_temporal \<equiv> \<lparr>ACCELERATION_TEMPORAL = True, OCIE1A = 1\<rparr>"

section \<open>Double arithmetic\<close>

text \<open>
  \<^verbatim>\<open>home.c\<close> computes two kinds of constants in \<^verbatim>\<open>double\<close>: the fast search feedrates and
  the axis limits in micrometres. A \<^verbatim>\<open>double\<close> is a binary floating point number, and the
  result of each operation is the exact result rounded to the nearest number with
  \<^verbatim>\<open>DBL_MANT_DIG\<close> binary digits, ties going to the even one: 53 digits for an IEEE double,
  24 where \<^verbatim>\<open>double\<close> has 32 bits, as it has by default with avr-gcc. \<open>rne\<close> rounds a real
  to the nearest integer, ties to even; \<open>fl p\<close> rounds a real to \<open>p\<close> binary digits. The
  exponent range is taken to be unbounded: no overflow, no subnormal numbers. The values
  of a \<^verbatim>\<open>double\<close> are held as reals.
\<close>

definition rne :: "real \<Rightarrow> int" where
  "rne z =
    (let f = \<lfloor>z\<rfloor> in
       if z - of_int f < 1 / 2 then f
       else if 1 / 2 < z - of_int f then f + 1
       else if even f then f else f + 1)"

definition fl :: "nat \<Rightarrow> real \<Rightarrow> real" where
  "fl p x =
    (if x = 0 then 0
     else let ulp = 2 powr (of_int \<lfloor>log 2 \<bar>x\<bar>\<rfloor> - real p + 1)
          in of_int (rne (x / ulp)) * ulp)"

text \<open>
  The two conversions from \<^verbatim>\<open>double\<close> that \<^verbatim>\<open>home.c\<close> uses, \<^verbatim>\<open>(uint32_t)\<close> and
  \<^verbatim>\<open>(int32_t)\<close>: both drop the fraction (towards zero). A value out of the range of the
  target type, which C leaves undefined, wraps here.
\<close>

definition uint32_of_double :: "real \<Rightarrow> 32 word" where
  "uint32_of_double x = word_of_int \<lfloor>x\<rfloor>"

definition int32_of_double :: "real \<Rightarrow> 32 word" where
  "int32_of_double x = word_of_int (if 0 \<le> x then \<lfloor>x\<rfloor> else \<lceil>x\<rceil>)"

section \<open>Homing (home.c)\<close>

text \<open>
  Modelled from the spec: \<^verbatim>\<open>enum axis_e\<close> is declared in \<^verbatim>\<open>dda.h\<close>, which is not part of
  the sources at hand; the spec gives the axes as X, Y, Z, U, E. \<^verbatim>\<open>home.c\<close> itself names
  X, Y, Z and U.
\<close>

datatype axis_e = X | Y | Z | U | E

text \<open>
  \<^verbatim>\<open>TARGET\<close>: the fields \<^verbatim>\<open>home.c\<close> reads and writes, \<^verbatim>\<open>int32_t axis[]\<close> (micrometres) and
  \<^verbatim>\<open>uint32_t F\<close> (feedrate). \<^verbatim>\<open>next_target\<close> is a \<^verbatim>\<open>GCODE_COMMAND\<close>, of which only
  \<^verbatim>\<open>target\<close> is used.
\<close>

record TARGET =
  axis :: "axis_e \<Rightarrow> 32 word"
  F :: "32 word"

record GCODE_COMMAND =
  target :: TARGET

text \<open>
  The state is the two globals \<^verbatim>\<open>startpoint\<close> and \<^verbatim>\<open>next_target\<close>, and a trace of what a
  homing routine does, in program order: its calls of \<^verbatim>\<open>enqueue_home\<close>, \<^verbatim>\<open>queue_wait\<close> and
  \<^verbatim>\<open>dda_new_startpoint\<close>, each with its arguments, and its own writes to the two globals.
\<close>

datatype call =
    Call_enqueue_home TARGET "8 word" "8 word"
  | Call_queue_wait
  | Call_dda_new_startpoint

datatype event =
    Called call
  | Wrote_next_target_axis axis_e "32 word"
  | Wrote_startpoint_axis axis_e "32 word"

record motion =
  startpoint :: TARGET
  next_target :: GCODE_COMMAND
  trace :: "event list"

text \<open>
  \<^verbatim>\<open>enqueue_home\<close>, \<^verbatim>\<open>queue_wait\<close> and \<^verbatim>\<open>dda_new_startpoint\<close> are defined in
  \<^verbatim>\<open>dda_queue.c\<close> and \<^verbatim>\<open>dda.c\<close>, which are not part of the sources at hand, and the spec
  has \<^verbatim>\<open>startpoint\<close> changed by \<^verbatim>\<open>dda_new_startpoint\<close> and, while the queue is worked
  off, by the step interrupt. So what a call does to the two globals is a parameter of
  every routine: \<open>env cl s\<close> is the state a call \<open>cl\<close> made in the state \<open>s\<close> returns to.
  \<open>do_call\<close> takes the two globals from it and records the call; the trace is out of the
  callee's reach.
\<close>

definition do_call :: "(call \<Rightarrow> motion \<Rightarrow> motion) \<Rightarrow> call \<Rightarrow> motion \<Rightarrow> motion" where
  "do_call env cl s =
     s\<lparr>startpoint := startpoint (env cl s), next_target := next_target (env cl s),
       trace := trace s @ [Called cl]\<rparr>"

text \<open>
  \<^verbatim>\<open>enqueue_home(&t, endstop_check, endstop_stop_cond)\<close>. The target is passed by pointer
  to the caller's local copy \<^verbatim>\<open>t\<close>, which the callee is taken to read only.
\<close>

definition enqueue_home ::
  "(call \<Rightarrow> motion \<Rightarrow> motion) \<Rightarrow> TARGET \<Rightarrow> 8 word \<Rightarrow> 8 word \<Rightarrow> motion \<Rightarrow> motion" where
  "enqueue_home env t endstop_check endstop_stop_cond s =
     do_call env (Call_enqueue_home t endstop_check endstop_stop_cond) s"

text \<open>\<^verbatim>\<open>queue_wait()\<close>, the spec's \<open>wait_idle()\<close>.\<close>

definition queue_wait :: "(call \<Rightarrow> motion \<Rightarrow> motion) \<Rightarrow> motion \<Rightarrow> motion" where
  "queue_wait env s = do_call env Call_queue_wait s"

text \<open>\<^verbatim>\<open>dda_new_startpoint()\<close>.\<close>

definition dda_new_startpoint :: "(call \<Rightarrow> motion \<Rightarrow> motion) \<Rightarrow> motion \<Rightarrow> motion" where
  "dda_new_startpoint env s = do_call env Call_dda_new_startpoint s"

text \<open>
  The configuration (\<^verbatim>\<open>config.h\<close> and the compiler, not part of the sources at hand) as the
  preprocessor sees it: which endstop pins are defined, the optional axis limits in
  millimetres, the acceleration, and per axis the endstop clearance and the search
  feedrate; and \<^verbatim>\<open>DBL_MANT_DIG\<close>, the binary digits of a \<^verbatim>\<open>double\<close>. A limit, the acceleration
  and a clearance are given by the number the macro is written as. The search feedrates
  are compared with and assigned to \<^verbatim>\<open>uint32_t\<close> values, and are held as such. The
  \<^verbatim>\<open>#error\<close> checks at the top of \<^verbatim>\<open>home.c\<close> make the clearance and the search feedrate of
  an axis defined whenever one of its pins is.
\<close>

record config =
  X_MIN_PIN :: bool
  X_MAX_PIN :: bool
  Y_MIN_PIN :: bool
  Y_MAX_PIN :: bool
  Z_MIN_PIN :: bool
  Z_MAX_PIN :: bool
  U_MIN_PIN :: bool
  U_MAX_PIN :: bool
  X_MIN :: "real option"
  X_MAX :: "real option"
  Y_MIN :: "real option"
  Y_MAX :: "real option"
  Z_MIN :: "real option"
  Z_MAX :: "real option"
  U_MIN :: "real option"
  U_MAX :: "real option"
  ACCELERATION :: real
  ENDSTOP_CLEARANCE_X :: real
  ENDSTOP_CLEARANCE_Y :: real
  ENDSTOP_CLEARANCE_Z :: real
  ENDSTOP_CLEARANCE_U :: real
  SEARCH_FEEDRATE_X :: "32 word"
  SEARCH_FEEDRATE_Y :: "32 word"
  SEARCH_FEEDRATE_Z :: "32 word"
  SEARCH_FEEDRATE_U :: "32 word"
  DBL_MANT_DIG :: nat

text \<open>
  \<^verbatim>\<open>(uint32_t)((double)60. * sqrt((double)2 * ACCELERATION * ENDSTOP_CLEARANCE_X / 1000.))\<close>,
  the body shared by the four macros \<^verbatim>\<open>SEARCH_FAST_X\<close> to \<^verbatim>\<open>SEARCH_FAST_U\<close>, for a
  \<^verbatim>\<open>double\<close> of \<open>p\<close> binary digits: first the \<^verbatim>\<open>double\<close> the cast is applied to, with every
  operation rounded (\<^verbatim>\<open>sqrt\<close> to the nearest \<^verbatim>\<open>double\<close> as well), then the cast. The
  constants 2, 60 and 1000 are \<^verbatim>\<open>double\<close>s as they stand. The expression stands for the
  code where the product under the square root is not negative; for a negative one C's
  \<^verbatim>\<open>sqrt\<close> gives no number.
\<close>

definition search_fast_double :: "nat \<Rightarrow> real \<Rightarrow> real \<Rightarrow> real" where
  "search_fast_double p acceleration endstop_clearance =
     fl p (60 * fl p (sqrt
       (fl p (fl p (fl p (2 * fl p acceleration) * fl p endstop_clearance) / 1000))))"

definition SEARCH_FAST :: "nat \<Rightarrow> real \<Rightarrow> real \<Rightarrow> 32 word" where
  "SEARCH_FAST p acceleration endstop_clearance =
     uint32_of_double (search_fast_double p acceleration endstop_clearance)"

definition SEARCH_FAST_X :: "config \<Rightarrow> 32 word" where
  "SEARCH_FAST_X c = SEARCH_FAST (DBL_MANT_DIG c) (ACCELERATION c) (ENDSTOP_CLEARANCE_X c)"

definition SEARCH_FAST_Y :: "config \<Rightarrow> 32 word" where
  "SEARCH_FAST_Y c = SEARCH_FAST (DBL_MANT_DIG c) (ACCELERATION c) (ENDSTOP_CLEARANCE_Y c)"

definition SEARCH_FAST_Z :: "config \<Rightarrow> 32 word" where
  "SEARCH_FAST_Z c = SEARCH_FAST (DBL_MANT_DIG c) (ACCELERATION c) (ENDSTOP_CLEARANCE_Z c)"

definition SEARCH_FAST_U :: "config \<Rightarrow> 32 word" where
  "SEARCH_FAST_U c = SEARCH_FAST (DBL_MANT_DIG c) (ACCELERATION c) (ENDSTOP_CLEARANCE_U c)"

text \<open>
  \<^verbatim>\<open>(int32_t)(X_MIN * 1000.0)\<close> and its likes for the other limits: the limit as a
  \<^verbatim>\<open>double\<close>, the rounded product, the cast.
\<close>

definition um_of_mm :: "nat \<Rightarrow> real \<Rightarrow> 32 word" where
  "um_of_mm p limit = int32_of_double (fl p (fl p limit * 1000))"

text \<open>
  The position a minimum endstop stands for: \<^verbatim>\<open>(int32_t)(X_MIN * 1000.0)\<close> under
  \<^verbatim>\<open>#ifdef X_MIN\<close>, 0 otherwise.
\<close>

definition min_um :: "nat \<Rightarrow> real option \<Rightarrow> 32 word" where
  "min_um p limit = (case limit of Some x \<Rightarrow> um_of_mm p x | None \<Rightarrow> 0)"

text \<open>\<^verbatim>\<open>t.axis[a] = v\<close> on a \<^verbatim>\<open>TARGET\<close>.\<close>

definition set_axis :: "axis_e \<Rightarrow> 32 word \<Rightarrow> TARGET \<Rightarrow> TARGET" where
  "set_axis a v t = t\<lparr>axis := (axis t)(a := v)\<rparr>"

text \<open>
  \<^verbatim>\<open>startpoint.axis[a] = next_target.target.axis[a] = v\<close>: the two writes, each recorded,
  here from right to left (C leaves the order of the two stores to the compiler).
\<close>

definition set_home :: "axis_e \<Rightarrow> 32 word \<Rightarrow> motion \<Rightarrow> motion" where
  "set_home a v s =
     s\<lparr>next_target := (next_target s)\<lparr>target := set_axis a v (target (next_target s))\<rparr>,
       startpoint := set_axis a v (startpoint s),
       trace := trace s @ [Wrote_next_target_axis a v, Wrote_startpoint_axis a v]\<rparr>"

text \<open>
  The eight homing routines. Each body is compiled only when its pin is defined (for the
  positive direction: its pin and its maximum; a pin without the maximum is an
  \<^verbatim>\<open>#error\<close>), and is empty otherwise. \<^verbatim>\<open>TARGET t = startpoint\<close> is a copy, so the targets of
  the moves derive from \<^verbatim>\<open>startpoint\<close> as it is on entry.
\<close>

definition home_x_negative :: "(call \<Rightarrow> motion \<Rightarrow> motion) \<Rightarrow> config \<Rightarrow> motion \<Rightarrow> motion" where
  "home_x_negative env c s0 =
    (if X_MIN_PIN c then
       let t1 = set_axis X (- 1000000) (startpoint s0);
           t2 = (if SEARCH_FAST_X c > SEARCH_FEEDRATE_X c
                 then t1\<lparr>F := SEARCH_FAST_X c\<rparr> else t1\<lparr>F := SEARCH_FEEDRATE_X c\<rparr>);
           s1 = enqueue_home env t2 0x01 1 s0;
           s2 = (if SEARCH_FAST_X c > SEARCH_FEEDRATE_X c
                 then enqueue_home env ((set_axis X 1000000 t2)\<lparr>F := SEARCH_FEEDRATE_X c\<rparr>) 0x01 0 s1
                 else s1);
           s3 = queue_wait env s2;
           s4 = set_home X (min_um (DBL_MANT_DIG c) (X_MIN c)) s3
       in dda_new_startpoint env s4
     else s0)"

definition home_x_positive :: "(call \<Rightarrow> motion \<Rightarrow> motion) \<Rightarrow> config \<Rightarrow> motion \<Rightarrow> motion" where
  "home_x_positive env c s0 =
    (case X_MAX c of
       Some x_max \<Rightarrow>
         if X_MAX_PIN c then
           let t1 = set_axis X 1000000 (startpoint s0);
               t2 = (if SEARCH_FAST_X c > SEARCH_FEEDRATE_X c
                     then t1\<lparr>F := SEARCH_FAST_X c\<rparr> else t1\<lparr>F := SEARCH_FEEDRATE_X c\<rparr>);
               s1 = enqueue_home env t2 0x02 1 s0;
               s2 = (if SEARCH_FAST_X c > SEARCH_FEEDRATE_X c
                     then enqueue_home env ((set_axis X (- 1000000) t2)\<lparr>F := SEARCH_FEEDRATE_X c\<rparr>) 0x02 0 s1
                     else s1);
               s3 = queue_wait env s2;
               s4 = set_home X (um_of_mm (DBL_MANT_DIG c) x_max) s3
           in dda_new_startpoint env s4
         else s0
     | None \<Rightarrow> s0)"

definition home_y_negative :: "(call \<Rightarrow> motion \<Rightarrow> motion) \<Rightarrow> config \<Rightarrow> motion \<Rightarrow> motion" where
  "home_y_negative env c s0 =
    (if Y_MIN_PIN c then
       let t1 = set_axis Y (- 1000000) (startpoint s0);
           t2 = (if SEARCH_FAST_Y c > SEARCH_FEEDRATE_Y c
                 then t1\<lparr>F := SEARCH_FAST_Y c\<rparr> else t1\<lparr>F := SEARCH_FEEDRATE_Y c\<rparr>);
           s1 = enqueue_home env t2 0x04 1 s0;
           s2 = (if SEARCH_FAST_Y c > SEARCH_FEEDRATE_Y c
                 then enqueue_home env ((set_axis Y 1000000 t2)\<lparr>F := SEARCH_FEEDRATE_Y c\<rparr>) 0x04 0 s1
                 else s1);
           s3 = queue_wait env s2;
           s4 = set_home Y (min_um (DBL_MANT_DIG c) (Y_MIN c)) s3
       in dda_new_startpoint env s4
     else s0)"

definition home_y_positive :: "(call \<Rightarrow> motion \<Rightarrow> motion) \<Rightarrow> config \<Rightarrow> motion \<Rightarrow> motion" where
  "home_y_positive env c s0 =
    (case Y_MAX c of
       Some y_max \<Rightarrow>
         if Y_MAX_PIN c then
           let t1 = set_axis Y 1000000 (startpoint s0);
               t2 = (if SEARCH_FAST_Y c > SEARCH_FEEDRATE_Y c
                     then t1\<lparr>F := SEARCH_FAST_Y c\<rparr> else t1\<lparr>F := SEARCH_FEEDRATE_Y c\<rparr>);
               s1 = enqueue_home env t2 0x08 1 s0;
               s2 = (if SEARCH_FAST_Y c > SEARCH_FEEDRATE_Y c
                     then enqueue_home env ((set_axis Y (- 1000000) t2)\<lparr>F := SEARCH_FEEDRATE_Y c\<rparr>) 0x08 0 s1
                     else s1);
               s3 = queue_wait env s2;
               s4 = set_home Y (um_of_mm (DBL_MANT_DIG c) y_max) s3
           in dda_new_startpoint env s4
         else s0
     | None \<Rightarrow> s0)"

definition home_z_negative :: "(call \<Rightarrow> motion \<Rightarrow> motion) \<Rightarrow> config \<Rightarrow> motion \<Rightarrow> motion" where
  "home_z_negative env c s0 =
    (if Z_MIN_PIN c then
       let t1 = set_axis Z (- 1000000) (startpoint s0);
           t2 = (if SEARCH_FAST_Z c > SEARCH_FEEDRATE_Z c
                 then t1\<lparr>F := SEARCH_FAST_Z c\<rparr> else t1\<lparr>F := SEARCH_FEEDRATE_Z c\<rparr>);
           s1 = enqueue_home env t2 0x10 1 s0;
           s2 = (if SEARCH_FAST_Z c > SEARCH_FEEDRATE_Z c
                 then enqueue_home env ((set_axis Z 1000000 t2)\<lparr>F := SEARCH_FEEDRATE_Z c\<rparr>) 0x10 0 s1
                 else s1);
           s3 = queue_wait env s2;
           s4 = set_home Z (min_um (DBL_MANT_DIG c) (Z_MIN c)) s3
       in dda_new_startpoint env s4
     else s0)"

definition home_z_positive :: "(call \<Rightarrow> motion \<Rightarrow> motion) \<Rightarrow> config \<Rightarrow> motion \<Rightarrow> motion" where
  "home_z_positive env c s0 =
    (case Z_MAX c of
       Some z_max \<Rightarrow>
         if Z_MAX_PIN c then
           let t1 = set_axis Z 1000000 (startpoint s0);
               t2 = (if SEARCH_FAST_Z c > SEARCH_FEEDRATE_Z c
                     then t1\<lparr>F := SEARCH_FAST_Z c\<rparr> else t1\<lparr>F := SEARCH_FEEDRATE_Z c\<rparr>);
               s1 = enqueue_home env t2 0x20 1 s0;
               s2 = (if SEARCH_FAST_Z c > SEARCH_FEEDRATE_Z c
                     then enqueue_home env ((set_axis Z (- 1000000) t2)\<lparr>F := SEARCH_FEEDRATE_Z c\<rparr>) 0x20 0 s1
                     else s1);
               s3 = queue_wait env s2;
               s4 = set_home Z (um_of_mm (DBL_MANT_DIG c) z_max) s3
           in dda_new_startpoint env s4
         else s0
     | None \<Rightarrow> s0)"

definition home_u_negative :: "(call \<Rightarrow> motion \<Rightarrow> motion) \<Rightarrow> config \<Rightarrow> motion \<Rightarrow> motion" where
  "home_u_negative env c s0 =
    (if U_MIN_PIN c then
       let t1 = set_axis U (- 1000000) (startpoint s0);
           t2 = (if SEARCH_FAST_U c > SEARCH_FEEDRATE_U c
                 then t1\<lparr>F := SEARCH_FAST_U c\<rparr> else t1\<lparr>F := SEARCH_FEEDRATE_U c\<rparr>);
           s1 = enqueue_home env t2 0x10 1 s0;
           s2 = (if SEARCH_FAST_U c > SEARCH_FEEDRATE_U c
                 then enqueue_home env ((set_axis U 1000000 t2)\<lparr>F := SEARCH_FEEDRATE_U c\<rparr>) 0x10 0 s1
                 else s1);
           s3 = queue_wait env s2;
           s4 = set_home U (min_um (DBL_MANT_DIG c) (U_MIN c)) s3
       in dda_new_startpoint env s4
     else s0)"

definition home_u_positive :: "(call \<Rightarrow> motion \<Rightarrow> motion) \<Rightarrow> config \<Rightarrow> motion \<Rightarrow> motion" where
  "home_u_positive env c s0 =
    (case U_MAX c of
       Some u_max \<Rightarrow>
         if U_MAX_PIN c then
           let t1 = set_axis U 1000000 (startpoint s0);
               t2 = (if SEARCH_FAST_U c > SEARCH_FEEDRATE_U c
                     then t1\<lparr>F := SEARCH_FAST_U c\<rparr> else t1\<lparr>F := SEARCH_FEEDRATE_U c\<rparr>);
               s1 = enqueue_home env t2 0x20 1 s0;
               s2 = (if SEARCH_FAST_U c > SEARCH_FEEDRATE_U c
                     then enqueue_home env ((set_axis U (- 1000000) t2)\<lparr>F := SEARCH_FEEDRATE_U c\<rparr>) 0x20 0 s1
                     else s1);
               s3 = queue_wait env s2;
               s4 = set_home U (um_of_mm (DBL_MANT_DIG c) u_max) s3
           in dda_new_startpoint env s4
         else s0
     | None \<Rightarrow> s0)"

text \<open>
  \<^verbatim>\<open>home()\<close>: each axis is homed in the negative direction when its minimum pin is
  defined, else in the positive direction when its maximum pin is.
\<close>

definition home :: "(call \<Rightarrow> motion \<Rightarrow> motion) \<Rightarrow> config \<Rightarrow> motion \<Rightarrow> motion" where
  "home env c s0 =
    (let s1 = (if X_MIN_PIN c then home_x_negative env c s0
               else if X_MAX_PIN c then home_x_positive env c s0 else s0);
         s2 = (if Y_MIN_PIN c then home_y_negative env c s1
               else if Y_MAX_PIN c then home_y_positive env c s1 else s1);
         s3 = (if Z_MIN_PIN c then home_z_negative env c s2
               else if Z_MAX_PIN c then home_z_positive env c s2 else s2)
     in (if U_MIN_PIN c then home_u_negative env c s3
         else if U_MAX_PIN c then home_u_positive env c s3 else s3))"

subsection \<open>What the trace shows\<close>

text \<open>The homing moves of a trace, in order: target, endstop mask and stop condition.\<close>

fun homing_move :: "event \<Rightarrow> (TARGET \<times> 8 word \<times> 8 word) list" where
  "homing_move (Called (Call_enqueue_home t endstop_check endstop_stop_cond)) =
     [(t, endstop_check, endstop_stop_cond)]"
| "homing_move (Called Call_queue_wait) = []"
| "homing_move (Called Call_dda_new_startpoint) = []"
| "homing_move (Wrote_next_target_axis a v) = []"
| "homing_move (Wrote_startpoint_axis a v) = []"

definition homing_moves :: "event list \<Rightarrow> (TARGET \<times> 8 word \<times> 8 word) list" where
  "homing_moves l = concat (map homing_move l)"

text \<open>The homing moves a state's trace holds, each with its stop condition, and their masks.\<close>

definition moves_of :: "motion \<Rightarrow> (TARGET \<times> 8 word) list" where
  "moves_of s =
     map (\<lambda>(t, endstop_check, endstop_stop_cond). (t, endstop_stop_cond)) (homing_moves (trace s))"

definition masks_of :: "motion \<Rightarrow> 8 word list" where
  "masks_of s =
     map (\<lambda>(t, endstop_check, endstop_stop_cond). endstop_check) (homing_moves (trace s))"

text \<open>
  The endstop mask layout as the spec gives it: bit 0 = X-, 1 = X+, 2 = Y-, 3 = Y+,
  4 = Z-, 5 = Z+, and so on, which puts U- at bit 6 and U+ at bit 7. The second argument
  is true for the maximum endstop.
\<close>

fun axis_number :: "axis_e \<Rightarrow> nat" where
  "axis_number X = 0"
| "axis_number Y = 1"
| "axis_number Z = 2"
| "axis_number U = 3"
| "axis_number E = 4"

definition spec_endstop_bit :: "axis_e \<Rightarrow> bool \<Rightarrow> 8 word" where
  "spec_endstop_bit a maximum = push_bit (2 * axis_number a + (if maximum then 1 else 0)) 1"

text \<open>
  The two-pass sequence as the spec words it, for an axis \<open>a\<close> homed towards its maximum
  (\<open>maximum\<close> true) or minimum, from the position \<open>sp\<close>: with \<open>fast > slow\<close>, a fast
  approach to \<open>\<plusminus>10\<^sup>6\<close> um with stop-on-trigger set, then a move the other way at the slow
  feedrate with stop-on-trigger cleared; otherwise one slow approach with
  stop-on-trigger set. Each move is paired with its stop condition.
\<close>

definition spec_two_pass ::
  "axis_e \<Rightarrow> bool \<Rightarrow> 32 word \<Rightarrow> 32 word \<Rightarrow> TARGET \<Rightarrow> (TARGET \<times> 8 word) list" where
  "spec_two_pass a maximum fast slow sp =
    (let towards = (if maximum then 1000000 else - 1000000) in
       if fast > slow
       then [(sp\<lparr>axis := (axis sp)(a := towards), F := fast\<rparr>, 1),
             (sp\<lparr>axis := (axis sp)(a := - towards), F := slow\<rparr>, 0)]
       else [(sp\<lparr>axis := (axis sp)(a := towards), F := slow\<rparr>, 1)])"

text \<open>
  What a homing routine appends to the trace, for an axis \<open>a\<close>, a mask \<open>m\<close>, its moves \<open>ms\<close>
  (each with its stop condition) and the position \<open>v\<close> it sets: the moves, \<open>queue_wait\<close>,
  the two writes, \<open>dda_new_startpoint\<close>.
\<close>

definition homing_trace :: "axis_e \<Rightarrow> 8 word \<Rightarrow> (TARGET \<times> 8 word) list \<Rightarrow> 32 word \<Rightarrow> event list" where
  "homing_trace a m ms v =
     map (\<lambda>(t, endstop_stop_cond). Called (Call_enqueue_home t m endstop_stop_cond)) ms
       @ [Called Call_queue_wait, Wrote_next_target_axis a v, Wrote_startpoint_axis a v,
          Called Call_dda_new_startpoint]"

text \<open>
  For the examples: callees that leave the two globals alone, the configuration of the
  spec's homing scenario (acceleration 1000, clearance 5, search feedrate 100) with an
  IEEE double, and a position.
\<close>

definition no_effect :: "call \<Rightarrow> motion \<Rightarrow> motion" where
  "no_effect cl s = s"

abbreviation example_config :: config where
  "example_config \<equiv>
    \<lparr>X_MIN_PIN = True, X_MAX_PIN = False, Y_MIN_PIN = True, Y_MAX_PIN = False,
     Z_MIN_PIN = True, Z_MAX_PIN = False, U_MIN_PIN = True, U_MAX_PIN = True,
     X_MIN = Some (- 10), X_MAX = Some 200, Y_MIN = None, Y_MAX = Some 200,
     Z_MIN = Some 0, Z_MAX = Some 140, U_MIN = Some 0, U_MAX = Some 90,
     ACCELERATION = 1000,
     ENDSTOP_CLEARANCE_X = 5, ENDSTOP_CLEARANCE_Y = 5,
     ENDSTOP_CLEARANCE_Z = 5, ENDSTOP_CLEARANCE_U = 5,
     SEARCH_FEEDRATE_X = 100, SEARCH_FEEDRATE_Y = 100,
     SEARCH_FEEDRATE_Z = 100, SEARCH_FEEDRATE_U = 100,
     DBL_MANT_DIG = 53\<rparr>"

abbreviation example_position :: TARGET where
  "example_position \<equiv> \<lparr>axis = (\<lambda>a. 0)(X := 12000, Y := 34000, Z := 5000, U := 700), F = 1500\<rparr>"

abbreviation example_motion :: motion where
  "example_motion \<equiv>
    \<lparr>startpoint = example_position, next_target = \<lparr>target = example_position\<rparr>, trace = []\<rparr>"

section \<open>Properties of the step timer\<close>

subsection \<open>Word arithmetic of the compare register\<close>

lemma unat_ucast_32_16: "unat (ucast (n::32 word) :: 16 word) = unat n mod 65536"
  by (simp add: unsigned_ucast_eq take_bit_eq_mod)

lemma unat_ucast_16_32: "unat (ucast (a::16 word) :: 32 word) = unat a"
proof -
  have "unat a < 2 ^ 16" using unsigned_less [of a] by simp
  then have "unat a < 2 ^ 32" by simp
  then have "take_bit 32 (unat a) = unat a" by (simp only: take_bit_nat_eq_self)
  then show ?thesis by (simp add: unsigned_ucast_eq)
qed

lemma mod_two_widths: "((N + A) mod 4294967296) mod 65536 = (N mod 65536 + A) mod (65536::nat)"
proof -
  have "(65536::nat) dvd 4294967296" by simp
  then have "((N + A) mod 4294967296) mod 65536 = (N + A) mod 65536"
    by (rule mod_mod_cancel)
  then show ?thesis by (simp only: mod_add_left_eq)
qed

lemma ucast_add_16: "(ucast ((n::32 word) + ucast (a::16 word)) :: 16 word) = ucast n + a"
proof -
  have "unat (ucast (n + ucast a) :: 16 word) = ((unat n + unat a) mod 4294967296) mod 65536"
    by (simp only: unat_ucast_32_16 unat_word_ariths unat_ucast_16_32) simp
  moreover have "unat (ucast n + a :: 16 word) = (unat n mod 65536 + unat a) mod 65536"
    by (simp only: unat_ucast_32_16 unat_word_ariths) simp
  ultimately show ?thesis by (simp only: word_unat_eq_iff mod_two_widths)
qed

lemma ucast_and_ffff: "(ucast ((n::32 word) AND 0xFFFF) :: 16 word) = ucast n"
proof -
  have m: "(0xFFFF::32 word) = mask 16" by (simp add: mask_eq_exp_minus_1)
  show ?thesis unfolding m by (rule bit_word_eqI) (simp add: bit_simps) 
qed

lemma and_ffff_16: "(a::16 word) AND 0xFFFF = a"
proof -
  have "(0xFFFF::16 word) = - 1" by simp
  then show ?thesis by (simp only: word_bw_comms word_and_max) 
qed

lemma compare_add_set: "(ucast (((n::32 word) + ucast (a::16 word)) AND 0xFFFF) :: 16 word) = a + ucast n"
  by (simp only: ucast_and_ffff ucast_add_16 add.commute)

lemma compare_add_isr: "(ucast ((ucast (a::16 word) + (n::32 word)) AND 0xFFFF) :: 16 word) = a + ucast n"
  by (simp only: add.commute [of "ucast a" n] compare_add_set)

lemma unat_ucast_small: "(n::32 word) < 65536 \<Longrightarrow> unat (ucast n :: 16 word) = unat n"
  by (simp add: unat_ucast_32_16 word_less_nat_alt)

lemma nst_sub: "\<not> (n::32 word) < 65536 \<Longrightarrow> unat (n - 65536) = unat n - 65536"
  by unat_arith

lemma nst_sub_guard: "\<not> (n::32 word) < 65536 \<Longrightarrow> unat (n - 55536) = unat n - 55536"
  by unat_arith

lemma isr_wrap_direct:
  assumes "\<not> next_step_time s < 65536" "next_step_time s - 65536 < 65536"
  shows "ISR_TIMER1_COMPA b qs s =
    s\<lparr>next_step_time := next_step_time s - 65536, OCR1A := OCR1A s + ucast (next_step_time s - 65536)\<rparr>"
  using assms by (simp add: ISR_TIMER1_COMPA_def Let_def compare_add_isr)

lemma isr_wrap_guard:
  assumes "\<not> next_step_time s < 65536" "\<not> next_step_time s - 65536 < 65536"
    "next_step_time s - 65536 < 75536"
  shows "ISR_TIMER1_COMPA b qs s =
    s\<lparr>next_step_time := next_step_time s - 55536, OCR1A := OCR1A s - 10000\<rparr>"
  using assms by (simp add: ISR_TIMER1_COMPA_def Let_def and_ffff_16)

lemma isr_wrap_far:
  assumes "\<not> next_step_time s < 65536" "\<not> next_step_time s - 65536 < 65536"
    "\<not> next_step_time s - 65536 < 75536"
  shows "ISR_TIMER1_COMPA b qs s = s\<lparr>next_step_time := next_step_time s - 65536\<rparr>"
  using assms by (simp add: ISR_TIMER1_COMPA_def Let_def)

lemma isr_wrap_decreases:
  assumes "\<not> next_step_time s < 65536"
  shows "unat (next_step_time (ISR_TIMER1_COMPA b qs s)) < unat (next_step_time s)"
proof -
  consider (d) "next_step_time s - 65536 < 65536"
    | (g) "\<not> next_step_time s - 65536 < 65536" "next_step_time s - 65536 < 75536"
    | (f) "\<not> next_step_time s - 65536 < 65536" "\<not> next_step_time s - 65536 < 75536"
    by blast
  then show ?thesis
  proof cases
    case d
    with assms show ?thesis by (simp add: isr_wrap_direct) unat_arith
  next
    case g
    with assms show ?thesis by (simp add: isr_wrap_guard) unat_arith
  next
    case f
    with assms show ?thesis by (simp add: isr_wrap_far) unat_arith
  qed
qed


lemma ticks_to_match_add:
  assumes "(n::32 word) < 65536" "n \<noteq> 0"
  shows "ticks_to_match prev (prev + ucast n) = unat n"
proof -
  have "unat (ucast n :: 16 word) = unat n" using assms(1) by (rule unat_ucast_small)
  moreover have "unat n \<noteq> 0" using assms(2) by (simp add: unat_eq_0)
  ultimately have "(ucast n :: 16 word) \<noteq> 0" by (metis unat_0)
  then show ?thesis using \<open>unat (ucast n :: 16 word) = unat n\<close>
    by (simp add: ticks_to_match_def)
qed

lemma ticks_to_match_same: "ticks_to_match prev prev = 65536"
  by (simp add: ticks_to_match_def)

lemma ticks_to_match_back: "ticks_to_match prev (prev - 10000) = 55536"
  by (simp add: ticks_to_match_def)

lemma compare_fires_direct:
  assumes "next_step_time s < 65536" "next_step_time s \<noteq> 0"
    "OCR1A s = prev + ucast (next_step_time s)"
  shows "compare_fires b qs prev s = [unat (next_step_time s)]"
  using assms by (simp add: compare_fires.simps [of b qs prev s] ticks_to_match_add)

lemma compare_fires_wrap:
  assumes "\<not> next_step_time s < 65536"
  shows "compare_fires b qs prev s =
    ticks_to_match prev (OCR1A s) # compare_fires b qs (OCR1A s) (ISR_TIMER1_COMPA b qs s)"
  using assms by (simp add: compare_fires.simps [of b qs prev s])

lemma compare_fires_far:
  assumes "\<not> next_step_time s < 75536" "OCR1A s = prev - k" "k = 0 \<or> k = 10000"
  shows "sum_list (compare_fires b qs prev s) = unat (next_step_time s) - unat k
       \<and> (\<forall>d \<in> set (compare_fires b qs prev s). 10000 \<le> d)"
  using assms
proof (induction "unat (next_step_time s)" arbitrary: s prev k rule: less_induct)
  case less
  let ?n = "next_step_time s"
  let ?s' = "ISR_TIMER1_COMPA b qs s"
  from less.prems(1) have big: "\<not> ?n < 65536" by unat_arith
  have first: "ticks_to_match prev (OCR1A s) = 65536 - unat k"
    using less.prems(2,3) by (auto simp: ticks_to_match_same ticks_to_match_back)
  have unfold: "compare_fires b qs prev s =
      ticks_to_match prev (OCR1A s) # compare_fires b qs (OCR1A s) ?s'"
    using big by (rule compare_fires_wrap)
  have klt: "unat k \<le> 10000" using less.prems(3) by auto
  consider (d) "?n - 65536 < 65536"
    | (g) "\<not> ?n - 65536 < 65536" "?n - 65536 < 75536"
    | (f) "\<not> ?n - 65536 < 65536" "\<not> ?n - 65536 < 75536"
    by blast
  then show ?case
  proof cases
    case d
    have s': "?s' = s\<lparr>next_step_time := ?n - 65536, OCR1A := OCR1A s + ucast (?n - 65536)\<rparr>"
      using big d by (rule isr_wrap_direct)
    have nz: "?n - 65536 \<noteq> 0" using less.prems(1) by unat_arith
    have rest: "compare_fires b qs (OCR1A s) ?s' = [unat (?n - 65536)]"
      using d nz by (simp add: s' compare_fires_direct)
    have v: "unat (?n - 65536) = unat ?n - 65536" using big by (rule nst_sub)
    have ge: "75536 \<le> unat ?n" using less.prems(1) by unat_arith
    show ?thesis using first klt ge by (simp add: unfold rest v) arith
  next
    case g
    have s': "?s' = s\<lparr>next_step_time := ?n - 55536, OCR1A := OCR1A s - 10000\<rparr>"
      using big g by (rule isr_wrap_guard)
    have ge: "131072 \<le> unat ?n" using big g(1) by unat_arith
    have v': "unat (?n - 55536) = unat ?n - 55536" using big by (rule nst_sub_guard)
    have lt: "unat (next_step_time ?s') < unat ?n" using big by (rule isr_wrap_decreases)
    have far': "\<not> next_step_time ?s' < 75536" using g(1) big by (simp add: s') unat_arith
    have ih: "sum_list (compare_fires b qs (OCR1A s) ?s') = unat (next_step_time ?s') - unat (10000::16 word)
       \<and> (\<forall>d \<in> set (compare_fires b qs (OCR1A s) ?s'). 10000 \<le> d)"
      by (rule less.hyps [OF lt far']) (simp_all add: s')
    show ?thesis using first klt ge ih by (simp add: unfold s' v')
  next
    case f
    have s': "?s' = s\<lparr>next_step_time := ?n - 65536\<rparr>"
      using big f by (rule isr_wrap_far)
    have v: "unat (?n - 65536) = unat ?n - 65536" using big by (rule nst_sub)
    have ge: "141072 \<le> unat ?n" using big f by unat_arith
    have lt: "unat (next_step_time ?s') < unat ?n" using big by (rule isr_wrap_decreases)
    have far': "\<not> next_step_time ?s' < 75536" using f by (simp add: s')
    have ih: "sum_list (compare_fires b qs (OCR1A s) ?s') = unat (next_step_time ?s') - unat (0::16 word)
       \<and> (\<forall>d \<in> set (compare_fires b qs (OCR1A s) ?s'). 10000 \<le> d)"
      by (rule less.hyps [OF lt far']) (simp_all add: s')
    show ?thesis using first klt ge ih by (simp add: unfold s' v)
  qed
qed

lemma uint_eq_sint_32:
  assumes "0 \<le> sint (w::32 word)"
  shows "uint w = sint w"
proof -
  have "sint w < 2 ^ 32" using sint_lt [of w] by simp
  with assms have "take_bit 32 (sint w) = sint w" by (simp only: take_bit_int_eq_self)
  then show ?thesis using uint_sint [of w] by simp
qed

lemma unat_eq_sint_32:
  assumes "0 \<le> sint (w::32 word)"
  shows "unat w = nat (sint w)"
  using uint_eq_sint_32 [OF assms] by (simp add: unat_eq_nat_uint)

lemma not_short_of_long:
  assumes "65536 \<le> sint (delay::32 word)"
  shows "\<not> sint delay < uint (x::16 word)"
proof -
  have "uint x < 65536" using uint_lt2p [of x] by simp
  with assms show ?thesis by simp
qed

lemma word_less_sint_32:
  assumes "0 \<le> sint (w::32 word)"
  shows "(w < 65536) = (sint w < 65536)" and "(w < 75536) = (sint w < 75536)"
  using uint_eq_sint_32 [OF assms] by (simp_all add: word_less_def)

lemma timer_set_direct:
  assumes "0 \<le> sint delay" "sint delay < 65536" "fst (timer_set b delay cs s) = 0"
  shows "snd (timer_set b delay cs s) =
    s\<lparr>SREG_I := False, next_step_time := delay, OCR1A := OCR1A s + ucast delay,
      TIMSK1 := TIMSK1 s OR MASK (OCIE1A b)\<rparr>"
  using assms word_less_sint_32 [OF assms(1)]
  by (auto simp: timer_set_def Let_def compare_add_set)

lemma timer_set_guard:
  assumes "65536 \<le> sint delay" "sint delay < 75536"
  shows "timer_set b delay cs s =
    (0, s\<lparr>SREG_I := False, next_step_time := delay + 10000, OCR1A := OCR1A s - 10000,
      TIMSK1 := TIMSK1 s OR MASK (OCIE1A b)\<rparr>)"
proof -
  have p: "0 \<le> sint delay" using assms(1) by simp
  show ?thesis
    using assms word_less_sint_32 [OF p] not_short_of_long [OF assms(1)]
    by (simp add: timer_set_def Let_def and_ffff_16)
qed

lemma timer_set_far:
  assumes "75536 \<le> sint delay"
  shows "timer_set b delay cs s =
    (0, s\<lparr>SREG_I := False, next_step_time := delay,
      TIMSK1 := TIMSK1 s OR MASK (OCIE1A b)\<rparr>)"
proof -
  have p: "0 \<le> sint delay" and q: "65536 \<le> sint delay" using assms by simp_all
  show ?thesis
    using assms word_less_sint_32 [OF p] not_short_of_long [OF q]
    by (simp add: timer_set_def Let_def)
qed

lemma timer_set_no_check:
  assumes "cs = 0 \<or> \<not> ACCELERATION_TEMPORAL b"
  shows "fst (timer_set b delay cs s) = 0"
  using assms by (auto simp: timer_set_def Let_def)

lemma total_delay:
  assumes "65536 \<le> sint delay"
  shows "sum_list (compare_fires b qs (OCR1A s) (snd (timer_set b delay cs s))) = nat (sint delay)
       \<and> (\<forall>d \<in> set (compare_fires b qs (OCR1A s) (snd (timer_set b delay cs s))). 10000 \<le> d)"
proof (cases "sint delay < 75536")
  case True
  let ?s = "s\<lparr>SREG_I := False, next_step_time := delay + 10000, OCR1A := OCR1A s - 10000,
      TIMSK1 := TIMSK1 s OR MASK (OCIE1A b)\<rparr>"
  have p: "0 \<le> sint delay" using assms by simp
  have u: "unat delay = nat (sint delay)" using p by (rule unat_eq_sint_32)
  have "unat delay < 75536" using u True by simp
  then have v: "unat (delay + 10000) = unat delay + 10000" by (simp add: unat_word_ariths)
  have far: "\<not> next_step_time ?s < 75536" using u v assms by (simp add: word_less_nat_alt)
  have "sum_list (compare_fires b qs (OCR1A s) ?s) = unat (next_step_time ?s) - unat (10000::16 word)
       \<and> (\<forall>d \<in> set (compare_fires b qs (OCR1A s) ?s). 10000 \<le> d)"
    using far by (rule compare_fires_far) simp_all
  then show ?thesis using u v by (simp add: timer_set_guard [OF assms True])
next
  case False
  let ?s = "s\<lparr>SREG_I := False, next_step_time := delay,
      TIMSK1 := TIMSK1 s OR MASK (OCIE1A b)\<rparr>"
  have ge: "75536 \<le> sint delay" using False by simp
  have p: "0 \<le> sint delay" using assms by simp
  have u: "unat delay = nat (sint delay)" using p by (rule unat_eq_sint_32)
  have far: "\<not> next_step_time ?s < 75536" using word_less_sint_32 [OF p] False by simp
  have "sum_list (compare_fires b qs (OCR1A s) ?s) = unat (next_step_time ?s) - unat (0::16 word)
       \<and> (\<forall>d \<in> set (compare_fires b qs (OCR1A s) ?s). 10000 \<le> d)"
    using far by (rule compare_fires_far) simp_all
  then show ?thesis using u by (simp add: timer_set_far [OF ge])
qed

lemma isr_wrap_any_queue_step:
  assumes "\<not> next_step_time s < 65536"
  shows "ISR_TIMER1_COMPA b qs s = ISR_TIMER1_COMPA b qs' s"
    and "TIMSK1 (ISR_TIMER1_COMPA b qs s) = TIMSK1 s"
  using assms by (simp_all add: ISR_TIMER1_COMPA_def Let_def)

lemma isr_wrap_remaining:
  assumes "\<not> next_step_time s < 65536"
  shows "unat (next_step_time (ISR_TIMER1_COMPA b qs s)) =
    (if 131072 \<le> unat (next_step_time s) \<and> unat (next_step_time s) < 141072
     then unat (next_step_time s) - 55536 else unat (next_step_time s) - 65536)"
proof -
  let ?n = "next_step_time s"
  consider (d) "?n - 65536 < 65536"
    | (g) "\<not> ?n - 65536 < 65536" "?n - 65536 < 75536"
    | (f) "\<not> ?n - 65536 < 65536" "\<not> ?n - 65536 < 75536"
    by blast
  then show ?thesis
  proof cases
    case d
    have "unat ?n < 131072" using assms d by unat_arith
    then show ?thesis using assms d by (simp add: isr_wrap_direct nst_sub)
  next
    case g
    have "131072 \<le> unat ?n" "unat ?n < 141072" using assms g by unat_arith+
    then show ?thesis using assms g by (simp add: isr_wrap_guard nst_sub_guard)
  next
    case f
    have "141072 \<le> unat ?n" using assms f by unat_arith
    then show ?thesis using assms f by (simp add: isr_wrap_far nst_sub)
  qed
qed

lemma isr_real_step:
  assumes "next_step_time s < 65536"
  shows "ISR_TIMER1_COMPA b qs s = qs (s\<lparr>TIMSK1 := TIMSK1 s AND NOT (MASK (OCIE1A b))\<rparr>)"
  using assms by (simp add: ISR_TIMER1_COMPA_def)

lemma example_delay:
  fixes s :: timer and b :: build and qs :: "timer \<Rightarrow> timer"
  defines "s0 \<equiv> snd (timer_set b 197842 0 s)"
  defines "s1 \<equiv> ISR_TIMER1_COMPA b qs s0"
  defines "s2 \<equiv> ISR_TIMER1_COMPA b qs s1"
  defines "s3 \<equiv> ISR_TIMER1_COMPA b qs s2"
  shows "next_step_time s0 = 197842 \<and> OCR1A s0 = OCR1A s"
    and "next_step_time s1 = 132306 \<and> OCR1A s1 = OCR1A s"
    and "next_step_time s2 = 76770 \<and> OCR1A s2 = OCR1A s - 10000"
    and "next_step_time s3 = 11234 \<and> OCR1A s3 = OCR1A s + 1234"
    and "compare_fires b qs (OCR1A s) s0 = [65536, 65536, 55536, 11234]"
proof -
  show 0: "next_step_time s0 = 197842 \<and> OCR1A s0 = OCR1A s"
    by (simp add: s0_def timer_set_far)
  then show 1: "next_step_time s1 = 132306 \<and> OCR1A s1 = OCR1A s"
    by (simp add: s1_def isr_wrap_far)
  then show 2: "next_step_time s2 = 76770 \<and> OCR1A s2 = OCR1A s - 10000"
    by (simp add: s2_def isr_wrap_guard)
  then show 3: "next_step_time s3 = 11234 \<and> OCR1A s3 = OCR1A s + 1234"
    by (simp add: s3_def isr_wrap_direct)
  have "compare_fires b qs (OCR1A s2) s3 = [unat (next_step_time s3)]"
    by (rule compare_fires_direct) (simp_all add: 2 3)
  then have "compare_fires b qs (OCR1A s1) s2 = [55536, 11234]"
    using 1 2 3 by (simp add: compare_fires_wrap [of s2] s3_def [symmetric] ticks_to_match_back)
  then have "compare_fires b qs (OCR1A s0) s1 = [65536, 55536, 11234]"
    using 0 1 2 by (simp add: compare_fires_wrap [of s1] s2_def [symmetric] ticks_to_match_same)
  then show "compare_fires b qs (OCR1A s) s0 = [65536, 65536, 55536, 11234]"
    using 0 1 by (simp add: compare_fires_wrap [of s0] s1_def [symmetric] ticks_to_match_same)
qed

lemma bit_clear_MASK: "bit (w AND NOT (MASK n)) m = (bit w m \<and> m \<noteq> n)"
  by (auto simp: MASK_def bit_simps dest: bit_imp_le_length)

lemma bit_set_MASK: "bit (w OR MASK n) m = (bit w m \<or> (m = n \<and> n < 8))"
  by (auto simp: MASK_def bit_simps)

lemma unat_back_10000: "unat ((a::16 word) - 10000) = (unat a + 55536) mod 65536"
proof -
  have "a - 10000 = a + 55536" by simp
  then show ?thesis by (simp only: unat_word_ariths) simp
qed


subsection \<open>The claims about the step timer\<close>

text \<open>
  C1, as amended. After \<open>timer_set\<close> with a delay of at least 65536, the next compare
  interrupt finds \<open>next_step_time \<ge> 65536\<close>. Every compare interrupt that finds
  \<open>next_step_time \<ge> 65536\<close> takes no step: its result does not depend on \<open>queue_step\<close>,
  which it does not call, and it leaves \<open>TIMSK1\<close> alone. It reduces \<open>next_step_time\<close> by
  65536, except where the remainder then falls into the guard band 65536 to 75535
  (\<open>next_step_time\<close> from 131072 to 141071 on entry), where the net reduction is 55536.
  The first compare interrupt that finds \<open>next_step_time < 65536\<close> calls \<open>queue_step\<close>.
  For a delay of \<open>3 * 65536 + 1234 = 197842\<close> there are exactly three such empty fires,
  after 65536, 65536 and 55536 ticks, and then the real step, 11234 ticks later.
\<close>

theorem large_delay_wrap:
  "(65536 \<le> sint delay \<longrightarrow>
      fst (timer_set b delay 0 s) = 0
    \<and> \<not> next_step_time (snd (timer_set b delay 0 s)) < 65536)
 \<and> (\<not> next_step_time t < 65536 \<longrightarrow>
      ISR_TIMER1_COMPA b qs t = ISR_TIMER1_COMPA b qs' t
    \<and> TIMSK1 (ISR_TIMER1_COMPA b qs t) = TIMSK1 t
    \<and> unat (next_step_time (ISR_TIMER1_COMPA b qs t)) =
        (if 131072 \<le> unat (next_step_time t) \<and> unat (next_step_time t) < 141072
         then unat (next_step_time t) - 55536 else unat (next_step_time t) - 65536))
 \<and> (next_step_time u < 65536 \<longrightarrow>
      ISR_TIMER1_COMPA b qs u = qs (u\<lparr>TIMSK1 := TIMSK1 u AND NOT (MASK (OCIE1A b))\<rparr>))
 \<and> (let s0 = snd (timer_set b 197842 0 s);
          s1 = ISR_TIMER1_COMPA b qs s0;
          s2 = ISR_TIMER1_COMPA b qs s1;
          s3 = ISR_TIMER1_COMPA b qs s2
      in \<not> next_step_time s0 < 65536 \<and> \<not> next_step_time s1 < 65536
       \<and> \<not> next_step_time s2 < 65536 \<and> next_step_time s3 < 65536
       \<and> OCR1A s3 = OCR1A s + 1234
       \<and> compare_fires b qs (OCR1A s) s0 = [65536, 65536, 55536, 11234])"
proof (intro conjI impI)
  assume h: "65536 \<le> sint delay"
  show "fst (timer_set b delay 0 s) = 0" by (simp add: timer_set_no_check)
  have p: "0 \<le> sint delay" using h by simp
  have u: "unat delay = nat (sint delay)" using p by (rule unat_eq_sint_32)
  show "\<not> next_step_time (snd (timer_set b delay 0 s)) < 65536"
  proof (cases "sint delay < 75536")
    case True
    then have "unat delay < 75536" using u by simp
    then have "unat (delay + 10000) = unat delay + 10000" by (simp add: unat_word_ariths)
    then show ?thesis using h u by (simp add: timer_set_guard [OF h True] word_less_nat_alt)
  next
    case False
    then have ge: "75536 \<le> sint delay" by simp
    show ?thesis using word_less_sint_32 [OF p] h by (simp add: timer_set_far [OF ge])
  qed
next
  assume h: "\<not> next_step_time t < 65536"
  show "ISR_TIMER1_COMPA b qs t = ISR_TIMER1_COMPA b qs' t"
    using h by (rule isr_wrap_any_queue_step)
  show "TIMSK1 (ISR_TIMER1_COMPA b qs t) = TIMSK1 t"
    using h by (rule isr_wrap_any_queue_step)
  show "unat (next_step_time (ISR_TIMER1_COMPA b qs t)) =
        (if 131072 \<le> unat (next_step_time t) \<and> unat (next_step_time t) < 141072
         then unat (next_step_time t) - 55536 else unat (next_step_time t) - 65536)"
    using h by (rule isr_wrap_remaining)
next
  assume "next_step_time u < 65536"
  then show "ISR_TIMER1_COMPA b qs u = qs (u\<lparr>TIMSK1 := TIMSK1 u AND NOT (MASK (OCIE1A b))\<rparr>)"
    by (rule isr_real_step)
next
  show "let s0 = snd (timer_set b 197842 0 s);
          s1 = ISR_TIMER1_COMPA b qs s0;
          s2 = ISR_TIMER1_COMPA b qs s1;
          s3 = ISR_TIMER1_COMPA b qs s2
      in \<not> next_step_time s0 < 65536 \<and> \<not> next_step_time s1 < 65536
       \<and> \<not> next_step_time s2 < 65536 \<and> next_step_time s3 < 65536
       \<and> OCR1A s3 = OCR1A s + 1234
       \<and> compare_fires b qs (OCR1A s) s0 = [65536, 65536, 55536, 11234]"
    unfolding Let_def by (simp add: example_delay)
qed

theorem large_delay_wrap_witness:
  "65536 \<le> sint (135000::32 word)
   \<and> timer_set avr_temporal 135000 0
        \<lparr>OCR1A = 100, TCNT1 = 130, TIMSK1 = 4, SREG_I = True, next_step_time = 0\<rparr>
      = (0, \<lparr>OCR1A = 100, TCNT1 = 130, TIMSK1 = 6, SREG_I = False, next_step_time = 135000\<rparr>)
   \<and> \<not> (135000::32 word) < 65536
   \<and> ISR_TIMER1_COMPA avr_temporal id
        \<lparr>OCR1A = 100, TCNT1 = 105, TIMSK1 = 6, SREG_I = False, next_step_time = 135000\<rparr>
      = ISR_TIMER1_COMPA avr_temporal (\<lambda>t. t\<lparr>OCR1A := 0\<rparr>)
        \<lparr>OCR1A = 100, TCNT1 = 105, TIMSK1 = 6, SREG_I = False, next_step_time = 135000\<rparr>
   \<and> (13928::32 word) < 65536
   \<and> ISR_TIMER1_COMPA avr_temporal (\<lambda>t. t\<lparr>OCR1A := 0\<rparr>)
        \<lparr>OCR1A = 3492, TCNT1 = 3497, TIMSK1 = 6, SREG_I = False, next_step_time = 13928\<rparr>
      = \<lparr>OCR1A = 0, TCNT1 = 3497, TIMSK1 = 4, SREG_I = False, next_step_time = 13928\<rparr>
   \<and> compare_fires avr_temporal id 100 (snd (timer_set avr_temporal 197842 0
        \<lparr>OCR1A = 100, TCNT1 = 130, TIMSK1 = 4, SREG_I = True, next_step_time = 0\<rparr>))
      = [65536, 65536, 55536, 11234]"
  using large_delay_wrap [of 135000 avr_temporal
     "\<lparr>OCR1A = 100, TCNT1 = 130, TIMSK1 = 4, SREG_I = True, next_step_time = 0\<rparr>"
     "\<lparr>OCR1A = 100, TCNT1 = 105, TIMSK1 = 6, SREG_I = False, next_step_time = 135000\<rparr>"
     id "\<lambda>t. t\<lparr>OCR1A := 0\<rparr>"
     "\<lparr>OCR1A = 3492, TCNT1 = 3497, TIMSK1 = 6, SREG_I = False, next_step_time = 13928\<rparr>"]
  by (simp add: timer_set_def ISR_TIMER1_COMPA_def Let_def MASK_def)

text \<open>
  C1 as it is stated fails where the remainder falls into the guard band: after
  \<open>timer_set(135000, 0)\<close> the first compare interrupt finds \<open>next_step_time = 135000\<close> and
  leaves 79464, not \<open>135000 - 65536 = 69464\<close>.
\<close>

theorem wrap_fire_reduction_counterexample:
  "\<not> next_step_time (snd (timer_set avr_temporal 135000 0
        \<lparr>OCR1A = 100, TCNT1 = 130, TIMSK1 = 4, SREG_I = True, next_step_time = 0\<rparr>)) < 65536
   \<and> next_step_time (ISR_TIMER1_COMPA avr_temporal id (snd (timer_set avr_temporal 135000 0
        \<lparr>OCR1A = 100, TCNT1 = 130, TIMSK1 = 4, SREG_I = True, next_step_time = 0\<rparr>)))
      \<noteq> next_step_time (snd (timer_set avr_temporal 135000 0
        \<lparr>OCR1A = 100, TCNT1 = 130, TIMSK1 = 4, SREG_I = True, next_step_time = 0\<rparr>)) - 65536
   \<and> next_step_time (ISR_TIMER1_COMPA avr_temporal id (snd (timer_set avr_temporal 135000 0
        \<lparr>OCR1A = 100, TCNT1 = 130, TIMSK1 = 4, SREG_I = True, next_step_time = 0\<rparr>))) = 79464"
  by (simp add: timer_set_def ISR_TIMER1_COMPA_def Let_def MASK_def)

text \<open>
  C2. Where the remaining delay is in the guard band, \<open>65536 \<le> next_step_time < 75536\<close>,
  both \<open>timer_set\<close> and the wrap branch of the compare interrupt step \<open>OCR1A\<close> back by
  10000 modulo 65536 and add 10000 to \<open>next_step_time\<close>. For every requested delay of at
  least 65536, the ticks from the anchor (the compare value on entry to \<open>timer_set\<close>) over
  all compare matches up to the real step add up to the requested delay, and every
  compare match is at least 10000 ticks after the one before it.
\<close>

theorem guard_band_preserves_delay:
  "(65536 \<le> sint delay \<and> sint delay < 75536 \<longrightarrow>
      fst (timer_set b delay cs s) = 0
    \<and> OCR1A (snd (timer_set b delay cs s)) = OCR1A s - 10000
    \<and> unat (OCR1A (snd (timer_set b delay cs s))) = (unat (OCR1A s) + 55536) mod 65536
    \<and> next_step_time (snd (timer_set b delay cs s)) = delay + 10000)
 \<and> (\<not> next_step_time t < 65536 \<and> \<not> next_step_time t - 65536 < 65536
      \<and> next_step_time t - 65536 < 75536 \<longrightarrow>
      OCR1A (ISR_TIMER1_COMPA b qs t) = OCR1A t - 10000
    \<and> unat (OCR1A (ISR_TIMER1_COMPA b qs t)) = (unat (OCR1A t) + 55536) mod 65536
    \<and> next_step_time (ISR_TIMER1_COMPA b qs t) = next_step_time t - 65536 + 10000)
 \<and> (65536 \<le> sint delay \<longrightarrow>
      sum_list (compare_fires b qs (OCR1A s) (snd (timer_set b delay cs s))) = nat (sint delay)
    \<and> (\<forall>d \<in> set (compare_fires b qs (OCR1A s) (snd (timer_set b delay cs s))). 10000 \<le> d))"
proof (intro conjI impI)
  assume h: "65536 \<le> sint delay \<and> sint delay < 75536"
  then have r: "timer_set b delay cs s =
    (0, s\<lparr>SREG_I := False, next_step_time := delay + 10000, OCR1A := OCR1A s - 10000,
      TIMSK1 := TIMSK1 s OR MASK (OCIE1A b)\<rparr>)"
    by (simp add: timer_set_guard)
  show "fst (timer_set b delay cs s) = 0" by (simp add: r)
  show "OCR1A (snd (timer_set b delay cs s)) = OCR1A s - 10000" by (simp add: r)
  show "unat (OCR1A (snd (timer_set b delay cs s))) = (unat (OCR1A s) + 55536) mod 65536"
    by (simp add: r unat_back_10000)
  show "next_step_time (snd (timer_set b delay cs s)) = delay + 10000" by (simp add: r)
next
  assume h: "\<not> next_step_time t < 65536 \<and> \<not> next_step_time t - 65536 < 65536
      \<and> next_step_time t - 65536 < 75536"
  then have r: "ISR_TIMER1_COMPA b qs t =
      t\<lparr>next_step_time := next_step_time t - 55536, OCR1A := OCR1A t - 10000\<rparr>"
    by (simp add: isr_wrap_guard)
  show "OCR1A (ISR_TIMER1_COMPA b qs t) = OCR1A t - 10000" by (simp add: r)
  show "unat (OCR1A (ISR_TIMER1_COMPA b qs t)) = (unat (OCR1A t) + 55536) mod 65536"
    by (simp add: r unat_back_10000)
  show "next_step_time (ISR_TIMER1_COMPA b qs t) = next_step_time t - 65536 + 10000"
    by (simp add: r)
next
  assume h: "65536 \<le> sint delay"
  show "sum_list (compare_fires b qs (OCR1A s) (snd (timer_set b delay cs s))) = nat (sint delay)"
    using total_delay [OF h] by blast
  show "\<forall>d \<in> set (compare_fires b qs (OCR1A s) (snd (timer_set b delay cs s))). 10000 \<le> d"
    using total_delay [OF h] by blast
qed

theorem guard_band_preserves_delay_witness:
  "65536 \<le> sint (70000::32 word) \<and> sint (70000::32 word) < 75536
   \<and> timer_set avr_temporal 70000 1
        \<lparr>OCR1A = 100, TCNT1 = 130, TIMSK1 = 4, SREG_I = True, next_step_time = 0\<rparr>
      = (0, \<lparr>OCR1A = 55636, TCNT1 = 130, TIMSK1 = 6, SREG_I = False, next_step_time = 80000\<rparr>)
   \<and> \<not> (135000::32 word) < 65536 \<and> \<not> (135000::32 word) - 65536 < 65536
   \<and> (135000::32 word) - 65536 < 75536
   \<and> ISR_TIMER1_COMPA avr_temporal id
        \<lparr>OCR1A = 100, TCNT1 = 105, TIMSK1 = 6, SREG_I = False, next_step_time = 135000\<rparr>
      = \<lparr>OCR1A = 55636, TCNT1 = 105, TIMSK1 = 6, SREG_I = False, next_step_time = 79464\<rparr>
   \<and> sum_list (compare_fires avr_temporal id 100 (snd (timer_set avr_temporal 70000 1
        \<lparr>OCR1A = 100, TCNT1 = 130, TIMSK1 = 4, SREG_I = True, next_step_time = 0\<rparr>))) = 70000
   \<and> list_all (\<lambda>d. 10000 \<le> d) (compare_fires avr_temporal id 100 (snd (timer_set avr_temporal 70000 1
        \<lparr>OCR1A = 100, TCNT1 = 130, TIMSK1 = 4, SREG_I = True, next_step_time = 0\<rparr>)))"
  using guard_band_preserves_delay [of 70000 avr_temporal 1
     "\<lparr>OCR1A = 100, TCNT1 = 130, TIMSK1 = 4, SREG_I = True, next_step_time = 0\<rparr>"
     "\<lparr>OCR1A = 100, TCNT1 = 105, TIMSK1 = 6, SREG_I = False, next_step_time = 135000\<rparr>"
     id]
  by (simp add: timer_set_def ISR_TIMER1_COMPA_def Let_def MASK_def list_all_iff)

text \<open>
  C3, as amended. For a delay from 0 to 65535, whenever \<open>timer_set\<close> schedules (it returns
  0, which it always does when \<open>check_short\<close> is 0 or \<^verbatim>\<open>ACCELERATION_TEMPORAL\<close> is not
  defined), the compare register becomes the previous compare value plus the delay,
  modulo 65536. Without the short-request check the whole result is the same whatever
  the counter \<open>TCNT1\<close> reads, that is, however long the handler has run.
\<close>

theorem timer_set_anchor:
  assumes "0 \<le> sint delay" and "sint delay < 65536"
    and "check_short = 0 \<or> \<not> ACCELERATION_TEMPORAL b
         \<or> fst (timer_set b delay check_short s) = 0"
  shows "fst (timer_set b delay check_short s) = 0
       \<and> OCR1A (snd (timer_set b delay check_short s)) = OCR1A s + ucast delay
       \<and> unat (OCR1A (snd (timer_set b delay check_short s)))
           = (unat (OCR1A s) + nat (sint delay)) mod 65536
       \<and> (check_short = 0 \<or> \<not> ACCELERATION_TEMPORAL b \<longrightarrow>
            (\<forall>now. timer_set b delay check_short (s\<lparr>TCNT1 := now\<rparr>)
               = (fst (timer_set b delay check_short s),
                  (snd (timer_set b delay check_short s))\<lparr>TCNT1 := now\<rparr>)))"
proof -
  have z: "fst (timer_set b delay check_short s) = 0"
    using assms(3) timer_set_no_check [of check_short b delay s] by blast
  have r: "snd (timer_set b delay check_short s) =
    s\<lparr>SREG_I := False, next_step_time := delay, OCR1A := OCR1A s + ucast delay,
      TIMSK1 := TIMSK1 s OR MASK (OCIE1A b)\<rparr>"
    using assms(1,2) z by (rule timer_set_direct)
  have lt: "delay < 65536" using word_less_sint_32 [OF assms(1)] assms(2) by simp
  have "unat (ucast delay :: 16 word) = unat delay" using lt by (rule unat_ucast_small)
  then have d: "unat (ucast delay :: 16 word) = nat (sint delay)"
    using unat_eq_sint_32 [OF assms(1)] by simp
  have v: "unat (OCR1A s + ucast delay) = (unat (OCR1A s) + nat (sint delay)) mod 65536"
    by (simp only: unat_word_ariths d) simp
  have w: "check_short = 0 \<or> \<not> ACCELERATION_TEMPORAL b \<longrightarrow>
            (\<forall>now. timer_set b delay check_short (s\<lparr>TCNT1 := now\<rparr>)
               = (fst (timer_set b delay check_short s),
                  (snd (timer_set b delay check_short s))\<lparr>TCNT1 := now\<rparr>))"
    by (auto simp: timer_set_def Let_def)
  show ?thesis using z v w by (simp add: r)
qed

theorem timer_set_anchor_witness:
  "0 \<le> sint (1234::32 word) \<and> sint (1234::32 word) < 65536
   \<and> timer_set avr_temporal 1234 0
        \<lparr>OCR1A = 65000, TCNT1 = 65100, TIMSK1 = 4, SREG_I = True, next_step_time = 0\<rparr>
      = (0, \<lparr>OCR1A = 698, TCNT1 = 65100, TIMSK1 = 6, SREG_I = False, next_step_time = 1234\<rparr>)
   \<and> unat (OCR1A (snd (timer_set avr_temporal 1234 0
        \<lparr>OCR1A = 65000, TCNT1 = 65100, TIMSK1 = 4, SREG_I = True, next_step_time = 0\<rparr>)))
      = (65000 + 1234) mod 65536"
  using timer_set_anchor [of 1234 0 avr_temporal
     "\<lparr>OCR1A = 65000, TCNT1 = 65100, TIMSK1 = 4, SREG_I = True, next_step_time = 0\<rparr>"]
  by (simp add: timer_set_def Let_def MASK_def)

text \<open>
  C3 as it is stated fails where the short-request check refuses the delay: with
  \<^verbatim>\<open>ACCELERATION_TEMPORAL\<close>, \<open>check_short = 1\<close>, the counter 50 ticks past the compare
  value 5000 and a delay of 100, \<open>timer_set\<close> returns 1 and the compare value stays 5000.
\<close>

theorem timer_set_anchor_counterexample:
  "0 \<le> sint (100::32 word) \<and> sint (100::32 word) < 65536
   \<and> unat (OCR1A (snd (timer_set avr_temporal 100 1
        \<lparr>OCR1A = 5000, TCNT1 = 5050, TIMSK1 = 4, SREG_I = False, next_step_time = 0\<rparr>)))
      \<noteq> (unat (OCR1A
        \<lparr>OCR1A = 5000, TCNT1 = 5050, TIMSK1 = 4, SREG_I = False, next_step_time = 0\<rparr>) + 100)
          mod 65536
   \<and> timer_set avr_temporal 100 1
        \<lparr>OCR1A = 5000, TCNT1 = 5050, TIMSK1 = 4, SREG_I = False, next_step_time = 0\<rparr>
      = (1, \<lparr>OCR1A = 5000, TCNT1 = 5050, TIMSK1 = 4, SREG_I = False, next_step_time = 100\<rparr>)"
  by (simp add: timer_set_def Let_def)

text \<open>
  C4, as amended. With \<^verbatim>\<open>ACCELERATION_TEMPORAL\<close> defined and \<open>check_short\<close> not 0,
  \<open>timer_set\<close> returns 1 exactly when \<open>(TCNT1 - OCR1A + 200) mod 65536\<close> exceeds the
  requested delay (a signed comparison), and 0 otherwise: the sum, not only the
  difference, is a 16-bit value. This is the claim's \<open>(TCNT1 - OCR1A) mod 65536 + 200\<close>
  whenever the 16-bit difference is below 65336. When 1 is returned, \<open>OCR1A\<close> and
  \<open>TIMSK1\<close> are as before the call.
\<close>

theorem timer_set_short_check:
  assumes "ACCELERATION_TEMPORAL b" and "check_short \<noteq> 0"
  shows "(fst (timer_set b delay check_short s) = 1)
           = (sint delay < int ((unat (TCNT1 s - OCR1A s) + 200) mod 65536))
       \<and> (fst (timer_set b delay check_short s) \<noteq> 1 \<longrightarrow>
            fst (timer_set b delay check_short s) = 0)
       \<and> (unat (TCNT1 s - OCR1A s) < 65336 \<longrightarrow>
            (fst (timer_set b delay check_short s) = 1)
              = (sint delay < int (unat (TCNT1 s - OCR1A s)) + 200))
       \<and> (fst (timer_set b delay check_short s) = 1 \<longrightarrow>
            OCR1A (snd (timer_set b delay check_short s)) = OCR1A s
          \<and> TIMSK1 (snd (timer_set b delay check_short s)) = TIMSK1 s)"
proof -
  have u: "uint (TCNT1 s - OCR1A s + 200) = int ((unat (TCNT1 s - OCR1A s) + 200) mod 65536)"
    by (simp add: uint_word_ariths zmod_int)
  have a: "(fst (timer_set b delay check_short s) = 1)
           = (sint delay < int ((unat (TCNT1 s - OCR1A s) + 200) mod 65536))"
    using assms by (simp add: timer_set_def Let_def flip: u)
  have m: "unat (TCNT1 s - OCR1A s) < 65336 \<longrightarrow>
      int ((unat (TCNT1 s - OCR1A s) + 200) mod 65536) = int (unat (TCNT1 s - OCR1A s)) + 200"
    by simp
  have c: "fst (timer_set b delay check_short s) \<noteq> 1 \<longrightarrow>
            fst (timer_set b delay check_short s) = 0"
    by (simp add: timer_set_def Let_def)
  have d: "fst (timer_set b delay check_short s) = 1 \<longrightarrow>
            OCR1A (snd (timer_set b delay check_short s)) = OCR1A s
          \<and> TIMSK1 (snd (timer_set b delay check_short s)) = TIMSK1 s"
    by (simp add: timer_set_def Let_def)
  show ?thesis using a c d m by simp
qed

theorem timer_set_short_check_witness:
  "ACCELERATION_TEMPORAL avr_temporal \<and> (1::8 word) \<noteq> 0
   \<and> timer_set avr_temporal 249 1
        \<lparr>OCR1A = 65500, TCNT1 = 14, TIMSK1 = 4, SREG_I = False, next_step_time = 0\<rparr>
      = (1, \<lparr>OCR1A = 65500, TCNT1 = 14, TIMSK1 = 4, SREG_I = False, next_step_time = 249\<rparr>)
   \<and> timer_set avr_temporal 250 1
        \<lparr>OCR1A = 65500, TCNT1 = 14, TIMSK1 = 4, SREG_I = False, next_step_time = 0\<rparr>
      = (0, \<lparr>OCR1A = 214, TCNT1 = 14, TIMSK1 = 6, SREG_I = False, next_step_time = 250\<rparr>)
   \<and> (fst (timer_set avr_temporal 249 1
        \<lparr>OCR1A = 65500, TCNT1 = 14, TIMSK1 = 4, SREG_I = False, next_step_time = 0\<rparr>) = 1)
      = (sint (249::32 word) < int ((unat ((14::16 word) - 65500) + 200) mod 65536))"
  using timer_set_short_check [of avr_temporal 1 249
     "\<lparr>OCR1A = 65500, TCNT1 = 14, TIMSK1 = 4, SREG_I = False, next_step_time = 0\<rparr>"]
  by (simp add: timer_set_def Let_def MASK_def)

text \<open>
  C4 as it is stated fails where the 16-bit difference is 65336 or more: with the counter
  at 0 and the compare value 100 the difference is 65436, and 65436 + 200 exceeds a delay
  of 1000, but the 16-bit sum is 100 and \<open>timer_set\<close> schedules the step. (With a 32-bit
  \<^verbatim>\<open>int\<close> the left side is \<open>0 - 100 + 200 = 100\<close> as well.)
\<close>

theorem timer_set_short_check_counterexample:
  "sint (1000::32 word)
     < int (unat (TCNT1 \<lparr>OCR1A = 100, TCNT1 = 0, TIMSK1 = 4, SREG_I = False, next_step_time = 0\<rparr>
                - OCR1A \<lparr>OCR1A = 100, TCNT1 = 0, TIMSK1 = 4, SREG_I = False, next_step_time = 0\<rparr>))
       + 200
   \<and> fst (timer_set avr_temporal 1000 1
        \<lparr>OCR1A = 100, TCNT1 = 0, TIMSK1 = 4, SREG_I = False, next_step_time = 0\<rparr>) \<noteq> 1
   \<and> timer_set avr_temporal 1000 1
        \<lparr>OCR1A = 100, TCNT1 = 0, TIMSK1 = 4, SREG_I = False, next_step_time = 0\<rparr>
      = (0, \<lparr>OCR1A = 1100, TCNT1 = 0, TIMSK1 = 6, SREG_I = False, next_step_time = 1000\<rparr>)"
  by (simp add: timer_set_def Let_def MASK_def)

text \<open>
  C9. When \<open>timer_set\<close> returns 1 (too short), global interrupts are disabled on return,
  \<open>next_step_time\<close> already holds the requested delay, and neither the compare register
  nor the interrupt mask has been written: the compare A interrupt is not enabled by
  this call.
\<close>

theorem timer_set_too_short_state:
  assumes "fst (timer_set b delay check_short s) = 1"
  shows "SREG_I (snd (timer_set b delay check_short s)) = False
       \<and> next_step_time (snd (timer_set b delay check_short s)) = delay
       \<and> TIMSK1 (snd (timer_set b delay check_short s)) = TIMSK1 s
       \<and> OCR1A (snd (timer_set b delay check_short s)) = OCR1A s
       \<and> TCNT1 (snd (timer_set b delay check_short s)) = TCNT1 s"
  using assms by (simp add: timer_set_def Let_def split: if_splits)

theorem timer_set_too_short_state_witness:
  "fst (timer_set avr_temporal 100 1
      \<lparr>OCR1A = 5000, TCNT1 = 5050, TIMSK1 = 4, SREG_I = True, next_step_time = 7\<rparr>) = 1
   \<and> SREG_I (snd (timer_set avr_temporal 100 1
      \<lparr>OCR1A = 5000, TCNT1 = 5050, TIMSK1 = 4, SREG_I = True, next_step_time = 7\<rparr>)) = False
   \<and> next_step_time (snd (timer_set avr_temporal 100 1
      \<lparr>OCR1A = 5000, TCNT1 = 5050, TIMSK1 = 4, SREG_I = True, next_step_time = 7\<rparr>)) = 100
   \<and> TIMSK1 (snd (timer_set avr_temporal 100 1
      \<lparr>OCR1A = 5000, TCNT1 = 5050, TIMSK1 = 4, SREG_I = True, next_step_time = 7\<rparr>)) = 4"
proof -
  have h: "fst (timer_set avr_temporal 100 1
      \<lparr>OCR1A = 5000, TCNT1 = 5050, TIMSK1 = 4, SREG_I = True, next_step_time = 7\<rparr>) = 1"
    by (simp add: timer_set_def Let_def)
  from timer_set_too_short_state [OF h] h show ?thesis by simp
qed

text \<open>
  C10. When the compare interrupt takes a real step (\<open>next_step_time < 65536\<close>), it calls
  \<open>queue_step\<close> on a state in which its own enable bit \<open>OCIE1A\<close> of \<open>TIMSK1\<close> is cleared and
  every other bit of \<open>TIMSK1\<close> is as before. So if \<open>queue_step\<close> does not set the bit (no
  move is live, and it does not call \<open>timer_set\<close>), the bit is clear when the handler
  returns; and a \<open>queue_step\<close> that ends in \<open>timer_set\<close> scheduling a step sets it again.
\<close>

theorem isr_real_step_disarms:
  assumes "next_step_time s < 65536"
  shows "ISR_TIMER1_COMPA b qs s = qs (s\<lparr>TIMSK1 := TIMSK1 s AND NOT (MASK (OCIE1A b))\<rparr>)
       \<and> \<not> bit (TIMSK1 s AND NOT (MASK (OCIE1A b))) (OCIE1A b)
       \<and> (\<forall>n. n \<noteq> OCIE1A b \<longrightarrow>
            bit (TIMSK1 s AND NOT (MASK (OCIE1A b))) n = bit (TIMSK1 s) n)
       \<and> ((\<forall>t. \<not> bit (TIMSK1 t) (OCIE1A b) \<longrightarrow> \<not> bit (TIMSK1 (qs t)) (OCIE1A b)) \<longrightarrow>
            \<not> bit (TIMSK1 (ISR_TIMER1_COMPA b qs s)) (OCIE1A b))
       \<and> (OCIE1A b < 8 \<longrightarrow>
            bit (TIMSK1 (ISR_TIMER1_COMPA b (\<lambda>t. snd (timer_set b delay 0 t)) s)) (OCIE1A b))"
proof -
  have r: "ISR_TIMER1_COMPA b q s = q (s\<lparr>TIMSK1 := TIMSK1 s AND NOT (MASK (OCIE1A b))\<rparr>)" for q
    using assms by (rule isr_real_step)
  have a: "\<not> bit (TIMSK1 s AND NOT (MASK (OCIE1A b))) (OCIE1A b)"
    by (simp add: bit_clear_MASK)
  have c: "(\<forall>t. \<not> bit (TIMSK1 t) (OCIE1A b) \<longrightarrow> \<not> bit (TIMSK1 (qs t)) (OCIE1A b)) \<longrightarrow>
            \<not> bit (TIMSK1 (ISR_TIMER1_COMPA b qs s)) (OCIE1A b)"
    using a by (simp add: r)
  have "bit (TIMSK1 (snd (timer_set b delay 0 t))) (OCIE1A b)" if "OCIE1A b < 8" for t
    using that by (simp add: timer_set_def Let_def bit_set_MASK)
  then have d: "OCIE1A b < 8 \<longrightarrow>
      bit (TIMSK1 (ISR_TIMER1_COMPA b (\<lambda>t. snd (timer_set b delay 0 t)) s)) (OCIE1A b)"
    by (simp add: r)
  show ?thesis using a c d by (simp add: r bit_clear_MASK)
qed

theorem isr_real_step_disarms_witness:
  "(100::32 word) < 65536
   \<and> ISR_TIMER1_COMPA avr_temporal id
        \<lparr>OCR1A = 5000, TCNT1 = 5004, TIMSK1 = 6, SREG_I = False, next_step_time = 100\<rparr>
      = \<lparr>OCR1A = 5000, TCNT1 = 5004, TIMSK1 = 4, SREG_I = False, next_step_time = 100\<rparr>
   \<and> \<not> bit (TIMSK1 (ISR_TIMER1_COMPA avr_temporal id
        \<lparr>OCR1A = 5000, TCNT1 = 5004, TIMSK1 = 6, SREG_I = False, next_step_time = 100\<rparr>)) 1
   \<and> bit (TIMSK1 (ISR_TIMER1_COMPA avr_temporal (\<lambda>t. snd (timer_set avr_temporal 2000 0 t))
        \<lparr>OCR1A = 5000, TCNT1 = 5004, TIMSK1 = 6, SREG_I = False, next_step_time = 100\<rparr>)) 1"
  using isr_real_step_disarms [of
     "\<lparr>OCR1A = 5000, TCNT1 = 5004, TIMSK1 = 6, SREG_I = False, next_step_time = 100\<rparr>"
     avr_temporal id 2000]
  by (simp add: ISR_TIMER1_COMPA_def MASK_def)

section \<open>Properties of double arithmetic\<close>

subsection \<open>Rounding\<close>

lemma rne_error: "\<bar>of_int (rne z) - z\<bar> \<le> 1 / 2"
  unfolding rne_def Let_def by (auto; linarith)

lemma rne_unique:
  assumes "of_int m - 1 / 2 < z" and "z < of_int m + 1 / 2"
  shows "rne z = m"
proof -
  have "\<bar>of_int (rne z) - z\<bar> \<le> 1 / 2" by (rule rne_error)
  then have "\<bar>real_of_int (rne z) - of_int m\<bar> < 1" using assms by linarith
  then have "\<bar>rne z - m\<bar> < 1" by (metis of_int_diff of_int_abs of_int_less_1_iff)
  then show ?thesis by simp
qed

lemma rne_of_int: "rne (of_int m) = m"
  by (rule rne_unique) simp_all

lemma rne_frac:
  assumes "0 < d" and "(2 * m - 1) * d < 2 * n" and "2 * n < (2 * m + 1) * d"
  shows "rne (of_int n / of_int d) = m"
proof (rule rne_unique)
  have d: "0 < real_of_int d" using assms(1) by simp
  have "real_of_int ((2 * m - 1) * d) < real_of_int (2 * n)" using assms(2) by (simp only: of_int_less_iff)
  then have "(2 * of_int m - 1) * real_of_int d < 2 * of_int n" by simp
  then have "(of_int m - 1 / 2) * real_of_int d < of_int n" by (simp add: algebra_simps)
  then show "of_int m - 1 / 2 < real_of_int n / real_of_int d" using d by (simp add: pos_less_divide_eq)
  have "real_of_int (2 * n) < real_of_int ((2 * m + 1) * d)" using assms(3) by (simp only: of_int_less_iff)
  then have "2 * of_int n < (2 * of_int m + 1) * real_of_int d" by simp
  then have "of_int n < (of_int m + 1 / 2) * real_of_int d" by (simp add: algebra_simps)
  then show "real_of_int n / real_of_int d < of_int m + 1 / 2" using d by (simp add: pos_divide_less_eq)
qed

lemma expo_unique:
  assumes "2 powr of_int e \<le> \<bar>x\<bar>" and "\<bar>x\<bar> < 2 powr (of_int e + 1)"
  shows "\<lfloor>log 2 \<bar>x\<bar>\<rfloor> = e"
proof -
  have pos: "0 < \<bar>x\<bar>" using assms(1) powr_gt_zero [of 2 "of_int e"] by linarith
  have "of_int e \<le> log 2 \<bar>x\<bar>" using assms(1) pos by (simp add: le_log_iff)
  moreover have "log 2 \<bar>x\<bar> < of_int e + 1" using assms(2) pos by (simp add: log_less_iff)
  ultimately show ?thesis by (simp add: floor_unique)
qed

lemma fl_eval:
  assumes "2 powr of_int e \<le> \<bar>x\<bar>" and "\<bar>x\<bar> < 2 powr (of_int e + 1)"
    and "rne (x / 2 powr (of_int e - real p + 1)) = m"
  shows "fl p x = of_int m * 2 powr (of_int e - real p + 1)"
proof -
  have "x \<noteq> 0" using assms(1) powr_gt_zero [of 2 "of_int e"] by auto
  then show ?thesis
    unfolding fl_def Let_def expo_unique [OF assms(1,2)] using assms(3) by simp
qed

text \<open>The relative error of one rounding is at most \<open>2 powr (- p)\<close>.\<close>

lemma fl_rel:
  "\<bar>fl p x - x\<bar> \<le> \<bar>x\<bar> * 2 powr (- real p)"
proof (cases "x = 0")
  case True
  then show ?thesis by (simp add: fl_def)
next
  case False
  define e where "e = \<lfloor>log 2 \<bar>x\<bar>\<rfloor>"
  define ulp where "ulp = 2 powr (of_int e - real p + 1)"
  have up: "0 < ulp" by (simp add: ulp_def)
  have f: "fl p x = of_int (rne (x / ulp)) * ulp"
    using False by (simp add: fl_def Let_def ulp_def e_def)
  have "\<bar>of_int (rne (x / ulp)) - x / ulp\<bar> \<le> 1 / 2" by (rule rne_error)
  then have "\<bar>of_int (rne (x / ulp)) - x / ulp\<bar> * ulp \<le> 1 / 2 * ulp"
    using up by (simp add: mult_right_mono)
  moreover have "\<bar>of_int (rne (x / ulp)) - x / ulp\<bar> * ulp = \<bar>fl p x - x\<bar>"
  proof -
    have "\<bar>of_int (rne (x / ulp)) - x / ulp\<bar> * ulp = \<bar>(of_int (rne (x / ulp)) - x / ulp) * ulp\<bar>"
      using up by (simp add: abs_mult)
    also have "(of_int (rne (x / ulp)) - x / ulp) * ulp = fl p x - x"
      using up by (simp add: f algebra_simps)
    finally show ?thesis .
  qed
  ultimately have err: "\<bar>fl p x - x\<bar> \<le> ulp / 2" by simp
  have "of_int e \<le> log 2 \<bar>x\<bar>" by (simp add: e_def)
  then have "2 powr of_int e \<le> 2 powr (log 2 \<bar>x\<bar>)" by (simp add: powr_mono)
  then have le: "2 powr of_int e \<le> \<bar>x\<bar>" using False by simp
  have "ulp / 2 = 2 powr of_int e * 2 powr (- real p)"
    by (simp add: ulp_def powr_diff powr_add powr_minus field_simps)
  also have "\<dots> \<le> \<bar>x\<bar> * 2 powr (- real p)" using le by (simp add: mult_right_mono)
  finally show ?thesis using err by linarith
qed

text \<open>A number with a mantissa of at most \<open>p\<close> digits is a \<^verbatim>\<open>double\<close>: rounding leaves it.\<close>

lemma fl_representable:
  assumes "x = of_int m * 2 powr of_int j" and "\<bar>m\<bar> < 2 ^ p"
  shows "fl p x = x"
proof (cases "m = 0")
  case True
  then show ?thesis using assms(1) by (simp add: fl_def)
next
  case False
  define e where "e = \<lfloor>log 2 \<bar>x\<bar>\<rfloor>"
  have ax: "\<bar>x\<bar> = of_int \<bar>m\<bar> * 2 powr of_int j" using assms(1) by (simp add: abs_mult)
  have x0: "x \<noteq> 0" using False assms(1) by simp
  have m1: "1 \<le> real_of_int \<bar>m\<bar>" using False by (simp add: int_one_le_iff_zero_less)
  have lo: "2 powr of_int j \<le> \<bar>x\<bar>"
    unfolding ax using m1 by (simp add: mult_le_cancel_right1)
  have "real_of_int \<bar>m\<bar> < 2 ^ p" using assms(2) by (metis of_int_less_numeral_power_cancel_iff)
  then have "\<bar>x\<bar> < 2 ^ p * 2 powr of_int j" unfolding ax by simp
  also have "\<dots> = 2 powr (of_int j + real p)" by (simp add: powr_add powr_realpow)
  finally have hi: "\<bar>x\<bar> < 2 powr (of_int j + real p)" .
  have "of_int j \<le> log 2 \<bar>x\<bar>" using lo x0 by (simp add: le_log_iff)
  then have ej: "j \<le> e" by (simp add: e_def le_floor_iff)
  have "log 2 \<bar>x\<bar> < of_int j + real p" using hi x0 by (simp add: log_less_iff)
  then have "of_int e < real_of_int j + real p" unfolding e_def by linarith
  then have ep: "e < j + int p" by linarith
  define n where "n = nat (j - e + int p - 1)"
  have n: "int n = j - e + int p - 1" using ep by (simp add: n_def)
  have "real_of_int j - (of_int e - real p + 1) = real n"
  proof -
    have "real n = real_of_int (int n)" by simp
    also have "\<dots> = real_of_int (j - e + int p - 1)" by (simp only: n)
    finally show ?thesis by simp
  qed
  then have q: "2 powr of_int j / 2 powr (of_int e - real p + 1) = 2 ^ n"
    by (simp add: powr_realpow flip: powr_diff)
  have "x / 2 powr (of_int e - real p + 1) = of_int m * (2 powr of_int j / 2 powr (of_int e - real p + 1))"
    using assms(1) by simp
  also have "\<dots> = of_int (m * 2 ^ n)" by (simp add: q)
  finally have r: "rne (x / 2 powr (of_int e - real p + 1)) = m * 2 ^ n"
    by (simp only: rne_of_int)
  have "fl p x = of_int (m * 2 ^ n) * 2 powr (of_int e - real p + 1)"
    using x0 r by (simp add: fl_def Let_def e_def)
  also have "\<dots> = of_int m * (2 ^ n * 2 powr (of_int e - real p + 1))" by simp
  also have "2 ^ n * 2 powr (of_int e - real p + 1) = 2 powr of_int j"
    using q by (simp add: field_simps)
  finally show ?thesis using assms(1) by simp
qed

lemma fl_of_int:
  assumes "\<bar>k\<bar> < 2 ^ p"
  shows "fl p (of_int k) = of_int k"
  by (rule fl_representable [where m = k and j = 0]) (use assms in simp_all)

lemma two_powr_le:
  assumes "24 \<le> p"
  shows "2 powr (- real p) \<le> 1 / 16777216"
proof -
  have "2 powr (- real p) \<le> (2::real) powr (- 24)"
    by (rule powr_mono) (use assms in simp_all)
  moreover have "(2::real) powr (- 24) = 1 / 16777216" by (simp add: powr_neg_numeral)
  ultimately show ?thesis by (simp only:)
qed

lemma fl_small_int:
  assumes "24 \<le> p" and "\<bar>k\<bar> \<le> 16777215"
  shows "fl p (of_int k) = of_int k"
proof -
  have "(2::int) ^ 24 \<le> 2 ^ p" by (rule power_increasing) (use assms(1) in simp_all)
  moreover have "(2::int) ^ 24 = 16777216" by simp
  ultimately have "\<bar>k\<bar> < 2 ^ p" using assms(2) by linarith
  then show ?thesis by (rule fl_of_int)
qed

text \<open>Rounding an enclosure, for any \<^verbatim>\<open>double\<close> of at least 24 digits.\<close>

lemma fl_interval:
  assumes "24 \<le> p" and "0 \<le> lo" and "lo \<le> x" and "x \<le> hi"
  shows "lo * (16777215 / 16777216) \<le> fl p x" and "fl p x \<le> hi * (16777217 / 16777216)"
proof -
  have x0: "0 \<le> x" using assms(2,3) by simp
  have "\<bar>fl p x - x\<bar> \<le> \<bar>x\<bar> * 2 powr (- real p)" by (rule fl_rel)
  also have "\<dots> \<le> \<bar>x\<bar> * (1 / 16777216)"
    by (rule mult_left_mono [OF two_powr_le [OF assms(1)]]) simp
  finally have e: "\<bar>fl p x - x\<bar> \<le> x / 16777216" using x0 by simp
  then have "x * (16777215 / 16777216) \<le> fl p x" by linarith
  moreover have "lo * (16777215 / 16777216) \<le> x * (16777215 / 16777216)"
    using assms(3) by simp
  ultimately show "lo * (16777215 / 16777216) \<le> fl p x" by linarith
  have "fl p x \<le> x * (16777217 / 16777216)" using e by linarith
  moreover have "x * (16777217 / 16777216) \<le> hi * (16777217 / 16777216)"
    using assms(4) by simp
  ultimately show "fl p x \<le> hi * (16777217 / 16777216)" by linarith
qed

text \<open>
  Rounding by hand: for \<open>x\<close> with \<open>2 ^ (p - 1) \<le> \<bar>x\<bar> * 2 ^ k < 2 ^ p\<close> the result is the
  integer nearest to \<open>x * 2 ^ k\<close>, over \<open>2 ^ k\<close>; for a fraction and for a square root that
  integer is found by comparing integers.
\<close>

lemma fl_scaled:
  assumes "1 \<le> p" and "2 ^ (p - 1) \<le> \<bar>x\<bar> * 2 ^ k" and "\<bar>x\<bar> * 2 ^ k < 2 ^ p"
  shows "fl p x = of_int (rne (x * 2 ^ k)) / 2 ^ k"
proof -
  define e where "e = int p - 1 - int k"
  have u: "(2::real) powr (of_int e - real p + 1) = 1 / 2 ^ k"
  proof -
    have "of_int e - real p + 1 = - real k" by (simp add: e_def)
    then show ?thesis by (simp add: powr_minus_divide powr_realpow)
  qed
  have "(2::real) powr of_int e = 2 powr (real (p - 1) - real k)"
    using assms(1) by (simp add: e_def of_nat_diff)
  also have "\<dots> = 2 ^ (p - 1) / 2 ^ k" by (simp add: powr_diff powr_realpow)
  finally have l: "(2::real) powr of_int e = 2 ^ (p - 1) / 2 ^ k" .
  have "(2::real) powr (of_int e + 1) = 2 powr (real p - real k)" by (simp add: e_def)
  also have "\<dots> = 2 ^ p / 2 ^ k" by (simp add: powr_diff powr_realpow)
  finally have h: "(2::real) powr (of_int e + 1) = 2 ^ p / 2 ^ k" .
  have lo: "2 powr of_int e \<le> \<bar>x\<bar>" unfolding l using assms(2) by (simp add: field_simps)
  have hi: "\<bar>x\<bar> < 2 powr (of_int e + 1)" unfolding h using assms(3) by (simp add: field_simps)
  have "fl p x = of_int (rne (x / 2 powr (of_int e - real p + 1))) * 2 powr (of_int e - real p + 1)"
    using lo hi by (rule fl_eval) simp
  then show ?thesis by (simp add: u)
qed

lemma fl_at:
  assumes "1 \<le> p" and "0 < d"
    and "2 ^ (p - 1) * d \<le> \<bar>n\<bar> * 2 ^ k" and "\<bar>n\<bar> * 2 ^ k < 2 ^ p * d"
    and "(2 * m - 1) * d < 2 * (n * 2 ^ k)" and "2 * (n * 2 ^ k) < (2 * m + 1) * d"
  shows "fl p (of_int n / of_int d) = of_int m / 2 ^ k"
proof -
  have d: "0 < real_of_int d" using assms(2) by simp
  have a: "\<bar>real_of_int n / real_of_int d\<bar> * 2 ^ k = real_of_int (\<bar>n\<bar> * 2 ^ k) / real_of_int d"
    using d by (simp add: abs_mult)
  have "real_of_int (2 ^ (p - 1) * d) \<le> real_of_int (\<bar>n\<bar> * 2 ^ k)"
    using assms(3) by (simp only: of_int_le_iff)
  then have lo: "2 ^ (p - 1) \<le> \<bar>real_of_int n / real_of_int d\<bar> * 2 ^ k"
    unfolding a using d by (simp add: pos_le_divide_eq)
  have "real_of_int (\<bar>n\<bar> * 2 ^ k) < real_of_int (2 ^ p * d)"
    using assms(4) by (simp only: of_int_less_iff)
  then have hi: "\<bar>real_of_int n / real_of_int d\<bar> * 2 ^ k < 2 ^ p"
    unfolding a using d by (simp add: pos_divide_less_eq)
  have "rne (of_int (n * 2 ^ k) / of_int d) = m"
    using assms(2,5,6) by (rule rne_frac)
  then have r: "rne (real_of_int n / real_of_int d * 2 ^ k) = m" by simp
  show ?thesis using fl_scaled [OF assms(1) lo hi] by (simp only: r)
qed

lemma fl_sqrt_at:
  assumes "1 \<le> p" and "2 ^ (p - 1) + 1 \<le> m" and "m + 1 \<le> 2 ^ p"
    and "((2 * of_int m - 1) / 2 ^ (k + 1))\<^sup>2 < q" and "q < ((2 * of_int m + 1) / 2 ^ (k + 1))\<^sup>2"
  shows "fl p (sqrt q) = of_int m / 2 ^ k"
proof -
  have "(0::int) < 2 ^ (p - 1)" by simp
  then have m0: "0 < m" using assms(2) by linarith
  have l: "(2 * of_int m - 1) / 2 ^ (k + 1) < sqrt q" using assms(4) by (rule real_less_rsqrt)
  have "0 \<le> (2 * real_of_int m + 1) / 2 ^ (k + 1)" using m0 by simp
  then have h: "sqrt q < (2 * of_int m + 1) / 2 ^ (k + 1)" using assms(5) by (rule real_less_lsqrt)
  have "0 < (2 * real_of_int m - 1) / 2 ^ (k + 1)" using m0 by simp
  then have "0 \<le> sqrt q" using l by linarith
  then have ab: "\<bar>sqrt q\<bar> = sqrt q" by simp
  have l': "of_int m - 1 / 2 < sqrt q * 2 ^ k" using l by (simp add: field_simps)
  have h': "sqrt q * 2 ^ k < of_int m + 1 / 2" using h by (simp add: field_simps)
  have r: "rne (sqrt q * 2 ^ k) = m" using l' h' by (rule rne_unique)
  have "real_of_int (2 ^ (p - 1) + 1) \<le> real_of_int m" using assms(2) by (simp only: of_int_le_iff)
  then have lo: "2 ^ (p - 1) \<le> \<bar>sqrt q\<bar> * 2 ^ k" unfolding ab using l' by simp
  have "real_of_int (m + 1) \<le> real_of_int (2 ^ p)" using assms(3) by (simp only: of_int_le_iff)
  then have hi: "\<bar>sqrt q\<bar> * 2 ^ k < 2 ^ p" unfolding ab using h' by simp
  show ?thesis using fl_scaled [OF assms(1) lo hi] by (simp only: r)
qed

text \<open>
  Rounding an enclosure of relative width: if \<open>x\<close> lies within \<open>y * (1 \<plusminus> u) ^ n\<close> for
  \<open>u = 2 powr (- p)\<close>, its rounding lies within \<open>y * (1 \<plusminus> u) ^ (n + 1)\<close>.
\<close>

lemma fl_step:
  assumes "0 \<le> y" and "y * (1 - 2 powr (- real p)) ^ n \<le> x" and "x \<le> y * (1 + 2 powr (- real p)) ^ n"
  shows fl_step_lo: "y * (1 - 2 powr (- real p)) ^ Suc n \<le> fl p x"
    and fl_step_hi: "fl p x \<le> y * (1 + 2 powr (- real p)) ^ Suc n"
proof -
  let ?u = "2 powr (- real p)"
  have "?u \<le> 2 powr 0" by (rule powr_mono) simp_all
  then have u1: "?u \<le> 1" by simp
  have lo0: "0 \<le> 1 - ?u" using u1 by simp
  have x0: "0 \<le> x" using assms(1,2) lo0 by (meson mult_nonneg_nonneg order_trans zero_le_power)
  have "\<bar>fl p x - x\<bar> \<le> \<bar>x\<bar> * ?u" by (rule fl_rel)
  then have e: "x * (1 - ?u) \<le> fl p x" "fl p x \<le> x * (1 + ?u)"
    using x0 by (simp_all add: abs_le_iff algebra_simps)
  have "y * (1 - ?u) ^ n * (1 - ?u) \<le> x * (1 - ?u)" using assms(2) lo0 by (rule mult_right_mono)
  moreover have "y * (1 - ?u) ^ Suc n = y * (1 - ?u) ^ n * (1 - ?u)" by simp
  ultimately show "y * (1 - ?u) ^ Suc n \<le> fl p x" using e(1) by linarith
  have "x * (1 + ?u) \<le> y * (1 + ?u) ^ n * (1 + ?u)" using assms(3) by (rule mult_right_mono) simp
  moreover have "y * (1 + ?u) ^ Suc n = y * (1 + ?u) ^ n * (1 + ?u)" by simp
  ultimately show "fl p x \<le> y * (1 + ?u) ^ Suc n" using e(2) by linarith
qed

subsection \<open>The conversions\<close>

lemma unat_uint32_of_double:
  assumes "0 \<le> x" and "x < 4294967296"
  shows "real (unat (uint32_of_double x)) = of_int \<lfloor>x\<rfloor>"
proof -
  have f0: "0 \<le> \<lfloor>x\<rfloor>" using assms(1) by simp
  have f1: "\<lfloor>x\<rfloor> < 4294967296" using assms(2) by (simp add: floor_less_iff)
  have "uint (word_of_int \<lfloor>x\<rfloor> :: 32 word) = \<lfloor>x\<rfloor>"
    using f0 f1 by (simp add: uint_word_of_int)
  then have "int (unat (uint32_of_double x)) = \<lfloor>x\<rfloor>"
    by (simp add: uint32_of_double_def)
  then show ?thesis by (metis of_int_of_nat_eq)
qed

lemma int32_of_double_whole: "int32_of_double (of_int k * 1000) = word_of_int (k * 1000)"
proof -
  have "(of_int k * 1000 :: real) = of_int (k * 1000)" by simp
  then have "(if 0 \<le> (of_int k * 1000 :: real) then \<lfloor>of_int k * 1000 :: real\<rfloor>
            else \<lceil>of_int k * 1000 :: real\<rceil>) = k * 1000"
    by (simp only: floor_of_int ceiling_of_int if_cancel)
  then show ?thesis unfolding int32_of_double_def by (simp only:)
qed

section \<open>Properties of homing\<close>

subsection \<open>The fast search feedrate\<close>

text \<open>
  The \<^verbatim>\<open>double\<close> before the cast against the exact expression: the five roundings under
  the square root count for three, the square root and the product with 60 for one each.
\<close>

lemma search_fast_double_bounds:
  assumes a: "0 \<le> a" and c: "0 \<le> c"
  shows "60 * sqrt (2 * a * c / 1000) * (1 - 2 powr (- real p)) ^ 5 \<le> search_fast_double p a c"
    and "search_fast_double p a c \<le> 60 * sqrt (2 * a * c / 1000) * (1 + 2 powr (- real p)) ^ 5"
proof -
  let ?lo = "1 - 2 powr (- real p)"
  let ?hi = "1 + 2 powr (- real p)"
  let ?q = "2 * a * c / 1000"
  let ?t1 = "fl p (2 * fl p a)"
  let ?t2 = "fl p (?t1 * fl p c)"
  let ?t3 = "fl p (?t2 / 1000)"
  let ?t4 = "fl p (sqrt ?t3)"
  have "2 powr (- real p) \<le> 2 powr 0" by (rule powr_mono) simp_all
  then have lo0: "0 \<le> ?lo" and lo1: "?lo \<le> 1" and hi1: "1 \<le> ?hi" by simp_all
  have hi0: "0 \<le> ?hi" using hi1 by linarith
  have Al: "a * ?lo ^ Suc 0 \<le> fl p a" by (rule fl_step_lo [OF a]) simp_all
  have Ah: "fl p a \<le> a * ?hi ^ Suc 0" by (rule fl_step_hi [OF a]) simp_all
  have a2: "0 \<le> 2 * a" using a by simp
  have T1l: "2 * a * ?lo ^ Suc (Suc 0) \<le> ?t1" by (rule fl_step_lo [OF a2]) (use Al Ah in simp_all)
  have T1h: "?t1 \<le> 2 * a * ?hi ^ Suc (Suc 0)" by (rule fl_step_hi [OF a2]) (use Al Ah in simp_all)
  have T10: "0 \<le> ?t1" using T1l a2 lo0
    by (meson mult_nonneg_nonneg order_trans zero_le_power)
  have Cl: "c * ?lo ^ Suc 0 \<le> fl p c" by (rule fl_step_lo [OF c]) simp_all
  have Ch: "fl p c \<le> c * ?hi ^ Suc 0" by (rule fl_step_hi [OF c]) simp_all
  have C0: "0 \<le> fl p c" using Cl c lo0 by (meson mult_nonneg_nonneg order_trans zero_le_power)
  have "(2 * a * ?lo ^ Suc (Suc 0)) * (c * ?lo ^ Suc 0) \<le> ?t1 * fl p c"
    using T1l Cl a2 c lo0 T10 C0 by (intro mult_mono) simp_all
  moreover have "(2 * a * ?lo ^ Suc (Suc 0)) * (c * ?lo ^ Suc 0) = 2 * a * c * ?lo ^ 3"
    by (simp add: power3_eq_cube)
  ultimately have P1: "2 * a * c * ?lo ^ 3 \<le> ?t1 * fl p c" by (simp only:)
  have "?t1 * fl p c \<le> (2 * a * ?hi ^ Suc (Suc 0)) * (c * ?hi ^ Suc 0)"
    using T1h Ch a2 c hi0 T10 C0 by (intro mult_mono) simp_all
  moreover have "(2 * a * ?hi ^ Suc (Suc 0)) * (c * ?hi ^ Suc 0) = 2 * a * c * ?hi ^ 3"
    by (simp add: power3_eq_cube)
  ultimately have P2: "?t1 * fl p c \<le> 2 * a * c * ?hi ^ 3" by (simp only:)
  have ac: "0 \<le> 2 * a * c" using a c by simp
  have T2l: "2 * a * c * ?lo ^ Suc 3 \<le> ?t2" using ac P1 P2 by (rule fl_step_lo)
  have T2h: "?t2 \<le> 2 * a * c * ?hi ^ Suc 3" using ac P1 P2 by (rule fl_step_hi)
  have q0: "0 \<le> ?q" using ac by simp
  have D1: "?q * ?lo ^ Suc 3 \<le> ?t2 / 1000" using T2l by simp
  have D2: "?t2 / 1000 \<le> ?q * ?hi ^ Suc 3" using T2h by simp
  have T3l: "?q * ?lo ^ Suc (Suc 3) \<le> ?t3" using q0 D1 D2 by (rule fl_step_lo)
  have T3h: "?t3 \<le> ?q * ?hi ^ Suc (Suc 3)" using q0 D1 D2 by (rule fl_step_hi)
  have "?lo ^ 6 \<le> ?lo ^ Suc (Suc 3)" using lo0 lo1 by (intro power_decreasing) simp_all
  then have "?q * ?lo ^ 6 \<le> ?q * ?lo ^ Suc (Suc 3)" using q0 by (rule mult_left_mono)
  moreover have "?q * ?lo ^ 6 = ?q * (?lo ^ 3)\<^sup>2" by (simp flip: power_mult)
  ultimately have "?q * (?lo ^ 3)\<^sup>2 \<le> ?t3" using T3l by linarith
  then have "sqrt (?q * (?lo ^ 3)\<^sup>2) \<le> sqrt ?t3" by (simp only: real_sqrt_le_iff)
  moreover have "0 \<le> ?lo ^ 3" using lo0 by (rule zero_le_power)
  then have "sqrt (?q * (?lo ^ 3)\<^sup>2) = sqrt ?q * ?lo ^ 3"
    by (simp only: real_sqrt_mult real_sqrt_abs abs_of_nonneg)
  ultimately have S1: "sqrt ?q * ?lo ^ 3 \<le> sqrt ?t3" by (simp only:)
  have "?hi ^ Suc (Suc 3) \<le> ?hi ^ 6" using hi1 by (intro power_increasing) simp_all
  then have "?q * ?hi ^ Suc (Suc 3) \<le> ?q * ?hi ^ 6" using q0 by (rule mult_left_mono)
  moreover have "?q * ?hi ^ 6 = ?q * (?hi ^ 3)\<^sup>2" by (simp flip: power_mult)
  ultimately have "?t3 \<le> ?q * (?hi ^ 3)\<^sup>2" using T3h by linarith
  then have "sqrt ?t3 \<le> sqrt (?q * (?hi ^ 3)\<^sup>2)" by (simp only: real_sqrt_le_iff)
  moreover have "0 \<le> ?hi ^ 3" using hi0 by (rule zero_le_power)
  then have "sqrt (?q * (?hi ^ 3)\<^sup>2) = sqrt ?q * ?hi ^ 3"
    by (simp only: real_sqrt_mult real_sqrt_abs abs_of_nonneg)
  ultimately have S2: "sqrt ?t3 \<le> sqrt ?q * ?hi ^ 3" by (simp only:)
  have s0: "0 \<le> sqrt ?q" using q0 by simp
  have T4l: "sqrt ?q * ?lo ^ Suc 3 \<le> ?t4" using s0 S1 S2 by (rule fl_step_lo)
  have T4h: "?t4 \<le> sqrt ?q * ?hi ^ Suc 3" using s0 S1 S2 by (rule fl_step_hi)
  have y0: "0 \<le> 60 * sqrt ?q" using s0 by simp
  have E1: "60 * sqrt ?q * ?lo ^ Suc 3 \<le> 60 * ?t4" using T4l by simp
  have E2: "60 * ?t4 \<le> 60 * sqrt ?q * ?hi ^ Suc 3" using T4h by simp
  have T5l: "60 * sqrt ?q * ?lo ^ Suc (Suc 3) \<le> fl p (60 * ?t4)" using y0 E1 E2 by (rule fl_step_lo)
  have T5h: "fl p (60 * ?t4) \<le> 60 * sqrt ?q * ?hi ^ Suc (Suc 3)" using y0 E1 E2 by (rule fl_step_hi)
  have five: "Suc (Suc 3) = 5" by simp
  show "60 * sqrt ?q * ?lo ^ 5 \<le> search_fast_double p a c"
    using T5l unfolding five by (simp only: search_fast_double_def)
  show "search_fast_double p a c \<le> 60 * sqrt ?q * ?hi ^ 5"
    using T5h unfolding five by (simp only: search_fast_double_def)
qed

text \<open>The feedrate, against the exact expression.\<close>

lemma search_fast_bounds:
  assumes a: "0 \<le> a" and c: "0 \<le> c"
    and r: "60 * sqrt (2 * a * c / 1000) * (1 + 2 powr (- real p)) ^ 5 < 4294967296"
  shows "real (unat (SEARCH_FAST p a c)) = of_int \<lfloor>search_fast_double p a c\<rfloor>"
    and "real (unat (SEARCH_FAST p a c)) \<le> 60 * sqrt (2 * a * c / 1000) * (1 + 2 powr (- real p)) ^ 5"
    and "60 * sqrt (2 * a * c / 1000) * (1 - 2 powr (- real p)) ^ 5 < real (unat (SEARCH_FAST p a c)) + 1"
proof -
  let ?y = "60 * sqrt (2 * a * c / 1000)"
  note b = search_fast_double_bounds [OF a c, of p]
  have "2 powr (- real p) \<le> 2 powr 0" by (rule powr_mono) simp_all
  then have "0 \<le> (1 - 2 powr (- real p)) ^ 5" by simp
  moreover have "0 \<le> ?y" using a c by simp
  ultimately have "0 \<le> ?y * (1 - 2 powr (- real p)) ^ 5" by (rule mult_nonneg_nonneg [rotated])
  then have d0: "0 \<le> search_fast_double p a c" using b(1) by linarith
  have d1: "search_fast_double p a c < 4294967296" using b(2) r by linarith
  show u: "real (unat (SEARCH_FAST p a c)) = of_int \<lfloor>search_fast_double p a c\<rfloor>"
    unfolding SEARCH_FAST_def using d0 d1 by (rule unat_uint32_of_double)
  show "real (unat (SEARCH_FAST p a c)) \<le> ?y * (1 + 2 powr (- real p)) ^ 5"
    unfolding u using b(2) by linarith
  show "?y * (1 - 2 powr (- real p)) ^ 5 < real (unat (SEARCH_FAST p a c)) + 1"
    unfolding u using b(1) by linarith
qed

text \<open>The values of the spec's scenario, for every \<^verbatim>\<open>double\<close> of at least 24 digits.\<close>

lemma search_fast_between:
  assumes p: "24 \<le> p"
    and a: "fl p (fl p (fl p (2 * fl p acc) * fl p clr) / 1000) = q"
    and lo: "0 \<le> lo" "lo\<^sup>2 \<le> q" and hi: "0 \<le> hi" "q \<le> hi\<^sup>2"
    and n: "of_int n \<le> 60 * (lo * (16777215 / 16777216)) * (16777215 / 16777216)"
      "60 * (hi * (16777217 / 16777216)) * (16777217 / 16777216) < of_int n + 1"
  shows "SEARCH_FAST p acc clr = word_of_int n"
proof -
  have l: "lo \<le> sqrt q" using lo(2) by (rule real_le_rsqrt)
  have h: "sqrt q \<le> hi" using hi by (intro real_le_lsqrt)
  note t4 = fl_interval [OF p lo(1) l h]
  have l0: "0 \<le> 60 * (lo * (16777215 / 16777216))" using lo(1) by simp
  have l5: "60 * (lo * (16777215 / 16777216)) \<le> 60 * fl p (sqrt q)" using t4(1) by simp
  have h5: "60 * fl p (sqrt q) \<le> 60 * (hi * (16777217 / 16777216))" using t4(2) by simp
  note t5 = fl_interval [OF p l0 l5 h5]
  have "\<lfloor>fl p (60 * fl p (sqrt q))\<rfloor> = n"
    using t5 n by (intro floor_unique) linarith+
  then show ?thesis by (simp add: SEARCH_FAST_def search_fast_double_def uint32_of_double_def a)
qed

lemma search_fast_1000_5:
  assumes "24 \<le> p"
  shows "SEARCH_FAST p 1000 5 = 189"
proof -
  have a: "fl p 1000 = 1000" using fl_small_int [OF assms, of 1000] by simp
  have b: "fl p 2000 = 2000" using fl_small_int [OF assms, of 2000] by simp
  have c: "fl p 5 = 5" using fl_small_int [OF assms, of 5] by simp
  have d: "fl p 10000 = 10000" using fl_small_int [OF assms, of 10000] by simp
  have e: "fl p 10 = 10" using fl_small_int [OF assms, of 10] by simp
  have q: "fl p (fl p (fl p (2 * fl p 1000) * fl p 5) / 1000) = 10" by (simp add: a b c d e)
  have "SEARCH_FAST p 1000 5 = word_of_int 189"
    by (rule search_fast_between [OF assms q, where lo = "31622 / 10000" and hi = "31623 / 10000"])
      (simp_all add: power2_eq_square)
  then show ?thesis by simp
qed

lemma search_fast_1000_500:
  assumes "24 \<le> p"
  shows "SEARCH_FAST p 1000 500 = 1897"
proof -
  have a: "fl p 1000 = 1000" using fl_small_int [OF assms, of 1000] by simp
  have b: "fl p 2000 = 2000" using fl_small_int [OF assms, of 2000] by simp
  have c: "fl p 500 = 500" using fl_small_int [OF assms, of 500] by simp
  have d: "fl p 1000000 = 1000000" using fl_small_int [OF assms, of 1000000] by simp
  have q: "fl p (fl p (fl p (2 * fl p 1000) * fl p 500) / 1000) = 1000" by (simp add: a b c d)
  have "SEARCH_FAST p 1000 500 = word_of_int 1897"
    by (rule search_fast_between [OF assms q, where lo = "31622 / 1000" and hi = "31623 / 1000"])
      (simp_all add: power2_eq_square)
  then show ?thesis by simp
qed

lemma search_fast_1000_5000:
  assumes "24 \<le> p"
  shows "SEARCH_FAST p 1000 5000 = 6000"
proof -
  have a: "fl p 1000 = 1000" using fl_small_int [OF assms, of 1000] by simp
  have b: "fl p 2000 = 2000" using fl_small_int [OF assms, of 2000] by simp
  have c: "fl p 5000 = 5000" using fl_small_int [OF assms, of 5000] by simp
  have d: "fl p 10000000 = 10000000" using fl_small_int [OF assms, of 10000000] by simp
  have e: "fl p 10000 = 10000" using fl_small_int [OF assms, of 10000] by simp
  have f: "fl p 100 = 100" using fl_small_int [OF assms, of 100] by simp
  have g: "fl p 6000 = 6000" using fl_small_int [OF assms, of 6000] by simp
  have "sqrt 10000 = sqrt (100\<^sup>2)" by simp
  also have "\<dots> = 100" by (simp only: real_sqrt_abs)
  finally have s: "sqrt 10000 = 100" .
  show ?thesis
    by (simp add: SEARCH_FAST_def search_fast_double_def uint32_of_double_def a b c d e f g s)
qed

text \<open>
  An acceleration of 1369 with a clearance of 5: the exact expression is the whole number
  222; an IEEE double gives 221, a \<^verbatim>\<open>double\<close> of 24 digits 222.
\<close>

lemma exact_1369_5: "60 * sqrt (2 * 1369 * 5 / 1000) = (222::real)"
proof -
  have "(2 * 1369 * 5 / 1000 :: real) = (37 / 10)\<^sup>2" by (simp add: power2_eq_square)
  then have "sqrt (2 * 1369 * 5 / 1000) = sqrt ((37 / 10)\<^sup>2)" by (simp only:)
  also have "\<dots> = 37 / 10" by simp
  finally show ?thesis by simp
qed

lemma floor_exact_1369_5: "\<lfloor>60 * sqrt (2 * 1369 * 5 / 1000) :: real\<rfloor> = 222"
  by (simp only: exact_1369_5) simp

lemma search_fast_53_1369_5: "SEARCH_FAST 53 1369 5 = 221"
proof -
  have a: "fl 53 1369 = 1369" using fl_of_int [of 1369 53] by simp
  have b: "fl 53 2738 = 2738" using fl_of_int [of 2738 53] by simp
  have c: "fl 53 5 = 5" using fl_of_int [of 5 53] by simp
  have d: "fl 53 13690 = 13690" using fl_of_int [of 13690 53] by simp
  have e: "fl 53 (13690 / 1000) = 7706784862337761 / 2 ^ 49"
    using fl_at [of 53 1000 13690 49 7706784862337761] by simp
  have f: "fl 53 (sqrt (7706784862337761 / 2 ^ 49)) = 8331659310635417 / 2 ^ 51"
    using fl_sqrt_at [of 53 8331659310635417 51 "7706784862337761 / 2 ^ 49"]
    by (simp add: power2_eq_square)
  have "fl 53 (of_int (60 * 8331659310635417) / of_int (2 ^ 51)) = of_int 7810930603720703 / 2 ^ 45"
    by (rule fl_at) simp_all
  then have g: "fl 53 (60 * (8331659310635417 / 2 ^ 51)) = 7810930603720703 / 2 ^ 45" by simp
  have t1: "fl 53 (2 * fl 53 1369) = 2738" by (simp add: a b)
  have t2: "fl 53 (fl 53 (2 * fl 53 1369) * fl 53 5) = 13690" by (simp add: t1 c d)
  have t3: "fl 53 (fl 53 (fl 53 (2 * fl 53 1369) * fl 53 5) / 1000) = 7706784862337761 / 2 ^ 49"
    by (simp only: t2 e)
  have t4: "fl 53 (sqrt (fl 53 (fl 53 (fl 53 (2 * fl 53 1369) * fl 53 5) / 1000)))
      = 8331659310635417 / 2 ^ 51"
    by (simp only: t3 f)
  have t5: "fl 53 (60 * fl 53 (sqrt (fl 53 (fl 53 (fl 53 (2 * fl 53 1369) * fl 53 5) / 1000))))
      = 7810930603720703 / 2 ^ 45"
    by (simp only: t4 g)
  have "\<lfloor>7810930603720703 / 2 ^ 45 :: real\<rfloor> = 221" by simp
  then show ?thesis
    by (simp only: SEARCH_FAST_def search_fast_double_def t5 uint32_of_double_def) simp
qed

lemma search_fast_24_1369_5: "SEARCH_FAST 24 1369 5 = 222"
proof -
  have a: "fl 24 1369 = 1369" using fl_of_int [of 1369 24] by simp
  have b: "fl 24 2738 = 2738" using fl_of_int [of 2738 24] by simp
  have c: "fl 24 5 = 5" using fl_of_int [of 5 24] by simp
  have d: "fl 24 13690 = 13690" using fl_of_int [of 13690 24] by simp
  have e: "fl 24 (13690 / 1000) = 14355005 / 2 ^ 20"
    using fl_at [of 24 1000 13690 20 14355005] by simp
  have f: "fl 24 (sqrt (14355005 / 2 ^ 20)) = 15518925 / 2 ^ 22"
    using fl_sqrt_at [of 24 15518925 22 "14355005 / 2 ^ 20"]
    by (simp add: power2_eq_square)
  have "fl 24 (of_int (60 * 15518925) / of_int (2 ^ 22)) = of_int 14548992 / 2 ^ 16"
    by (rule fl_at) simp_all
  then have g: "fl 24 (60 * (15518925 / 2 ^ 22)) = 14548992 / 2 ^ 16" by simp
  have t1: "fl 24 (2 * fl 24 1369) = 2738" by (simp add: a b)
  have t2: "fl 24 (fl 24 (2 * fl 24 1369) * fl 24 5) = 13690" by (simp add: t1 c d)
  have t3: "fl 24 (fl 24 (fl 24 (2 * fl 24 1369) * fl 24 5) / 1000) = 14355005 / 2 ^ 20"
    by (simp only: t2 e)
  have t4: "fl 24 (sqrt (fl 24 (fl 24 (fl 24 (2 * fl 24 1369) * fl 24 5) / 1000)))
      = 15518925 / 2 ^ 22"
    by (simp only: t3 f)
  have t5: "fl 24 (60 * fl 24 (sqrt (fl 24 (fl 24 (fl 24 (2 * fl 24 1369) * fl 24 5) / 1000))))
      = 14548992 / 2 ^ 16"
    by (simp only: t4 g)
  have "\<lfloor>14548992 / 2 ^ 16 :: real\<rfloor> = 222" by simp
  then show ?thesis
    by (simp only: SEARCH_FAST_def search_fast_double_def t5 uint32_of_double_def) simp
qed

lemmas search_fast_defs =
  SEARCH_FAST_X_def SEARCH_FAST_Y_def SEARCH_FAST_Z_def SEARCH_FAST_U_def

subsection \<open>Millimetres to micrometres\<close>

lemma um_of_mm_of_int:
  assumes "\<bar>k * 1000\<bar> < 2 ^ p"
  shows "um_of_mm p (of_int k) = word_of_int (k * 1000)"
proof -
  have "\<bar>k\<bar> \<le> \<bar>k * 1000\<bar>" by (simp add: abs_mult)
  then have "\<bar>k\<bar> < 2 ^ p" using assms(1) by linarith
  then have a: "fl p (of_int k) = of_int k" by (rule fl_of_int)
  have "fl p (of_int (k * 1000)) = of_int (k * 1000)" using assms(1) by (rule fl_of_int)
  then have b: "fl p (of_int k * 1000) = of_int k * 1000" by simp
  show ?thesis unfolding um_of_mm_def a b by (rule int32_of_double_whole)
qed

lemma um_of_mm_whole:
  assumes "\<bar>k * 1000\<bar> < 2 ^ p" and "- 2147483 \<le> k" and "k \<le> 2147483"
  shows "sint (um_of_mm p (of_int k)) = k * 1000"
proof -
  have "signed_take_bit 31 (k * 1000) = k * 1000"
    using assms(2,3) by (intro signed_take_bit_int_eq_self) simp_all
  then show ?thesis unfolding um_of_mm_of_int [OF assms(1)] by (simp only: sint_sbintrunc') simp
qed

text \<open>2.01 mm and 8.03 mm: the product falls just below 2010 and 8030.\<close>

lemma um_of_mm_53_201: "um_of_mm 53 (201 / 100) = 2009"
proof -
  have a: "fl 53 (201 / 100) = 4526117625507348 / 2 ^ 51"
    using fl_at [of 53 100 201 51 4526117625507348] by simp
  have "fl 53 (of_int (4526117625507348 * 1000) / of_int (2 ^ 51)) = of_int 8840073487319039 / 2 ^ 42"
    by (rule fl_at) simp_all
  then have b: "fl 53 (4526117625507348 / 2 ^ 51 * 1000) = 8840073487319039 / 2 ^ 42" by simp
  have "\<lfloor>8840073487319039 / 2 ^ 42 :: real\<rfloor> = 2009" by simp
  then show ?thesis by (simp only: um_of_mm_def a b int32_of_double_def) simp
qed

lemma um_of_mm_53_803: "um_of_mm 53 (803 / 100) = 8029"
proof -
  have a: "fl 53 (803 / 100) = 4520488125973135 / 2 ^ 49"
    using fl_at [of 53 100 803 49 4520488125973135] by simp
  have "fl 53 (of_int (4520488125973135 * 1000) / of_int (2 ^ 49)) = of_int 8829078371041279 / 2 ^ 40"
    by (rule fl_at) simp_all
  then have b: "fl 53 (4520488125973135 / 2 ^ 49 * 1000) = 8829078371041279 / 2 ^ 40" by simp
  have "\<lfloor>8829078371041279 / 2 ^ 40 :: real\<rfloor> = 8029" by simp
  then show ?thesis by (simp only: um_of_mm_def a b int32_of_double_def) simp
qed

lemma um_of_mm_24_803: "um_of_mm 24 (803 / 100) = 8029"
proof -
  have a: "fl 24 (803 / 100) = 8420065 / 2 ^ 20"
    using fl_at [of 24 100 803 20 8420065] by simp
  have "fl 24 (of_int (8420065 * 1000) / of_int (2 ^ 20)) = of_int 16445439 / 2 ^ 11"
    by (rule fl_at) simp_all
  then have b: "fl 24 (8420065 / 2 ^ 20 * 1000) = 16445439 / 2 ^ 11" by simp
  have "\<lfloor>16445439 / 2 ^ 11 :: real\<rfloor> = 8029" by simp
  then show ?thesis by (simp only: um_of_mm_def a b int32_of_double_def) simp
qed

subsection \<open>The trace of each routine\<close>

lemmas home_defs =
  enqueue_home_def queue_wait_def dda_new_startpoint_def do_call_def set_home_def set_axis_def
  homing_trace_def spec_two_pass_def Let_def

lemma homing_moves_append: "homing_moves (l @ l') = homing_moves l @ homing_moves l'"
  by (simp add: homing_moves_def)

lemma homing_moves_trace:
  "homing_moves (homing_trace a m ms v) =
     map (\<lambda>(t, endstop_stop_cond). (t, m, endstop_stop_cond)) ms"
  by (induction ms) (auto simp: homing_moves_def homing_trace_def)

lemma moves_of_trace:
  assumes "trace s' = trace s @ homing_trace a m ms v"
  shows "moves_of s' = moves_of s @ ms"
  using assms by (simp add: moves_of_def homing_moves_append homing_moves_trace comp_def case_prod_beta)

lemma masks_of_trace:
  assumes "trace s' = trace s @ homing_trace a m ms v"
  shows "masks_of s' = masks_of s @ replicate (length ms) m"
  using assms
  by (simp add: masks_of_def homing_moves_append homing_moves_trace comp_def case_prod_beta
      map_replicate_const)

lemma replicate_two: "replicate 2 x = [x, x]"
  by (simp add: numeral_2_eq_2)

lemma length_spec_two_pass:
  "length (spec_two_pass a maximum fast slow sp) = (if fast > slow then 2 else 1)"
  by (simp add: spec_two_pass_def Let_def)

lemma home_x_negative_trace:
  assumes "X_MIN_PIN c"
  shows "trace (home_x_negative env c s) = trace s @
    homing_trace X 0x01
      (spec_two_pass X False (SEARCH_FAST_X c) (SEARCH_FEEDRATE_X c) (startpoint s))
      (min_um (DBL_MANT_DIG c) (X_MIN c))"
  using assms by (simp add: home_x_negative_def home_defs)

lemma home_x_positive_trace:
  assumes "X_MAX_PIN c" and "X_MAX c = Some m"
  shows "trace (home_x_positive env c s) = trace s @
    homing_trace X 0x02
      (spec_two_pass X True (SEARCH_FAST_X c) (SEARCH_FEEDRATE_X c) (startpoint s))
      (um_of_mm (DBL_MANT_DIG c) m)"
  using assms by (simp add: home_x_positive_def home_defs)

lemma home_y_negative_trace:
  assumes "Y_MIN_PIN c"
  shows "trace (home_y_negative env c s) = trace s @
    homing_trace Y 0x04
      (spec_two_pass Y False (SEARCH_FAST_Y c) (SEARCH_FEEDRATE_Y c) (startpoint s))
      (min_um (DBL_MANT_DIG c) (Y_MIN c))"
  using assms by (simp add: home_y_negative_def home_defs)

lemma home_y_positive_trace:
  assumes "Y_MAX_PIN c" and "Y_MAX c = Some m"
  shows "trace (home_y_positive env c s) = trace s @
    homing_trace Y 0x08
      (spec_two_pass Y True (SEARCH_FAST_Y c) (SEARCH_FEEDRATE_Y c) (startpoint s))
      (um_of_mm (DBL_MANT_DIG c) m)"
  using assms by (simp add: home_y_positive_def home_defs)

lemma home_z_negative_trace:
  assumes "Z_MIN_PIN c"
  shows "trace (home_z_negative env c s) = trace s @
    homing_trace Z 0x10
      (spec_two_pass Z False (SEARCH_FAST_Z c) (SEARCH_FEEDRATE_Z c) (startpoint s))
      (min_um (DBL_MANT_DIG c) (Z_MIN c))"
  using assms by (simp add: home_z_negative_def home_defs)

lemma home_z_positive_trace:
  assumes "Z_MAX_PIN c" and "Z_MAX c = Some m"
  shows "trace (home_z_positive env c s) = trace s @
    homing_trace Z 0x20
      (spec_two_pass Z True (SEARCH_FAST_Z c) (SEARCH_FEEDRATE_Z c) (startpoint s))
      (um_of_mm (DBL_MANT_DIG c) m)"
  using assms by (simp add: home_z_positive_def home_defs)

lemma home_u_negative_trace:
  assumes "U_MIN_PIN c"
  shows "trace (home_u_negative env c s) = trace s @
    homing_trace U 0x10
      (spec_two_pass U False (SEARCH_FAST_U c) (SEARCH_FEEDRATE_U c) (startpoint s))
      (min_um (DBL_MANT_DIG c) (U_MIN c))"
  using assms by (simp add: home_u_negative_def home_defs)

lemma home_u_positive_trace:
  assumes "U_MAX_PIN c" and "U_MAX c = Some m"
  shows "trace (home_u_positive env c s) = trace s @
    homing_trace U 0x20
      (spec_two_pass U True (SEARCH_FAST_U c) (SEARCH_FEEDRATE_U c) (startpoint s))
      (um_of_mm (DBL_MANT_DIG c) m)"
  using assms by (simp add: home_u_positive_def home_defs)

lemma spec_endstop_bits:
  "spec_endstop_bit X False = 0x01" "spec_endstop_bit X True = 0x02"
  "spec_endstop_bit Y False = 0x04" "spec_endstop_bit Y True = 0x08"
  "spec_endstop_bit Z False = 0x10" "spec_endstop_bit Z True = 0x20"
  "spec_endstop_bit U False = 0x40" "spec_endstop_bit U True = 0x80"
  by (simp_all add: spec_endstop_bit_def)

subsection \<open>What the callees may do to a component\<close>

text \<open>
  A component of \<open>startpoint\<close>, here an axis, keeps a value \<open>x\<close> through a call if the callee
  leaves it alone or, being \<open>enqueue_home\<close>, sets it to that component of the target it is
  passed, and the target has \<open>x\<close> there.
\<close>

lemma enqueue_home_keeps:
  assumes "\<forall>cl s'. axis (startpoint (env cl s')) a = axis (startpoint s') a
            \<or> (\<exists>t m sc. cl = Call_enqueue_home t m sc \<and> axis (startpoint (env cl s')) a = axis t a)"
    and "axis (startpoint s) a = x" and "axis t a = x"
  shows "axis (startpoint (enqueue_home env t m sc s)) a = x"
  using assms(1) [rule_format, of "Call_enqueue_home t m sc" s] assms(2,3)
  by (auto simp: enqueue_home_def do_call_def)

lemma queue_wait_keeps:
  assumes "\<forall>cl s'. axis (startpoint (env cl s')) a = axis (startpoint s') a
            \<or> (\<exists>t m sc. cl = Call_enqueue_home t m sc \<and> axis (startpoint (env cl s')) a = axis t a)"
    and "axis (startpoint s) a = x"
  shows "axis (startpoint (queue_wait env s)) a = x"
  using assms(1) [rule_format, of Call_queue_wait s] assms(2)
  by (auto simp: queue_wait_def do_call_def)

lemma dda_new_startpoint_keeps:
  assumes "\<forall>cl s'. axis (startpoint (env cl s')) a = axis (startpoint s') a
            \<or> (\<exists>t m sc. cl = Call_enqueue_home t m sc \<and> axis (startpoint (env cl s')) a = axis t a)"
    and "axis (startpoint s) a = x"
  shows "axis (startpoint (dda_new_startpoint env s)) a = x"
  using assms(1) [rule_format, of Call_dda_new_startpoint s] assms(2)
  by (auto simp: dda_new_startpoint_def do_call_def)

lemma set_home_keeps:
  assumes "a \<noteq> b" and "axis (startpoint s) a = x"
  shows "axis (startpoint (set_home b v s)) a = x"
  using assms by (simp add: set_home_def set_axis_def)

lemma home_x_negative_frame:
  assumes "X_MIN_PIN c" and "a \<noteq> X"
    and h: "\<forall>cl s'. axis (startpoint (env cl s')) a = axis (startpoint s') a
            \<or> (\<exists>t m sc. cl = Call_enqueue_home t m sc \<and> axis (startpoint (env cl s')) a = axis t a)"
  shows "axis (startpoint (home_x_negative env c s)) a = axis (startpoint s) a"
proof -
  define t1 where "t1 = (set_axis X (- 1000000) (startpoint s))\<lparr>F := SEARCH_FAST_X c\<rparr>"
  define t1' where "t1' = (set_axis X (- 1000000) (startpoint s))\<lparr>F := SEARCH_FEEDRATE_X c\<rparr>"
  define t2 where "t2 = (set_axis X 1000000 t1)\<lparr>F := SEARCH_FEEDRATE_X c\<rparr>"
  define v where "v = min_um (DBL_MANT_DIG c) (X_MIN c)"
  have a1: "axis t1 a = axis (startpoint s) a" using assms(2) by (simp add: t1_def set_axis_def)
  have a1': "axis t1' a = axis (startpoint s) a" using assms(2) by (simp add: t1'_def set_axis_def)
  have a2: "axis t2 a = axis (startpoint s) a" using assms(2) by (simp add: t2_def t1_def set_axis_def)
  show ?thesis
  proof (cases "SEARCH_FAST_X c > SEARCH_FEEDRATE_X c")
    case True
    then have e: "home_x_negative env c s =
      dda_new_startpoint env (set_home X v (queue_wait env
        (enqueue_home env t2 0x01 0 (enqueue_home env t1 0x01 1 s))))"
      using assms(1) by (simp add: home_x_negative_def Let_def t1_def t2_def v_def)
    have s1: "axis (startpoint (enqueue_home env t1 0x01 1 s)) a = axis (startpoint s) a"
      by (rule enqueue_home_keeps [OF h refl a1])
    have s2: "axis (startpoint (enqueue_home env t2 0x01 0 (enqueue_home env t1 0x01 1 s))) a
        = axis (startpoint s) a"
      by (rule enqueue_home_keeps [OF h s1 a2])
    have s3: "axis (startpoint (queue_wait env
        (enqueue_home env t2 0x01 0 (enqueue_home env t1 0x01 1 s)))) a = axis (startpoint s) a"
      by (rule queue_wait_keeps [OF h s2])
    have s4: "axis (startpoint (set_home X v (queue_wait env
        (enqueue_home env t2 0x01 0 (enqueue_home env t1 0x01 1 s))))) a = axis (startpoint s) a"
      by (rule set_home_keeps [OF assms(2) s3])
    show ?thesis unfolding e by (rule dda_new_startpoint_keeps [OF h s4])
  next
    case False
    then have e: "home_x_negative env c s =
      dda_new_startpoint env (set_home X v (queue_wait env (enqueue_home env t1' 0x01 1 s)))"
      using assms(1) by (simp add: home_x_negative_def Let_def t1'_def v_def)
    have s1: "axis (startpoint (enqueue_home env t1' 0x01 1 s)) a = axis (startpoint s) a"
      by (rule enqueue_home_keeps [OF h refl a1'])
    have s3: "axis (startpoint (queue_wait env (enqueue_home env t1' 0x01 1 s))) a
        = axis (startpoint s) a"
      by (rule queue_wait_keeps [OF h s1])
    have s4: "axis (startpoint (set_home X v (queue_wait env (enqueue_home env t1' 0x01 1 s)))) a
        = axis (startpoint s) a"
      by (rule set_home_keeps [OF assms(2) s3])
    show ?thesis unfolding e by (rule dda_new_startpoint_keeps [OF h s4])
  qed
qed

lemma home_x_negative_value:
  assumes "X_MIN_PIN c"
    and "\<forall>s'. axis (startpoint (env Call_dda_new_startpoint s')) X = axis (startpoint s') X"
  shows "axis (startpoint (home_x_negative env c s)) X = min_um (DBL_MANT_DIG c) (X_MIN c)"
  using assms by (simp add: home_x_negative_def home_defs)

lemma home_x_negative_next_target:
  assumes "X_MIN_PIN c"
    and "\<forall>s'. axis (target (next_target (env Call_dda_new_startpoint s'))) X
           = axis (target (next_target s')) X"
  shows "axis (target (next_target (home_x_negative env c s))) X = min_um (DBL_MANT_DIG c) (X_MIN c)"
  using assms by (simp add: home_x_negative_def home_defs)

subsection \<open>The claims about homing\<close>

text \<open>
  C5. The mask each routine passes to \<open>enqueue_home\<close>, against the layout of the spec
  (\<open>spec_endstop_bit\<close>), whatever the callees do: the X, Y and Z routines pass the bit of
  their own endstop with every move, but \<open>home_u_negative\<close> passes \<open>0x10\<close> and
  \<open>home_u_positive\<close> passes \<open>0x20\<close>, the bits of the Z endstops, where the layout has \<open>0x40\<close>
  and \<open>0x80\<close> for U.
\<close>

theorem endstop_masks_passed:
  "(X_MIN_PIN c \<longrightarrow> masks_of (home_x_negative env c s) = masks_of s @
      replicate (if SEARCH_FAST_X c > SEARCH_FEEDRATE_X c then 2 else 1) (spec_endstop_bit X False))
 \<and> (X_MAX_PIN c \<and> X_MAX c = Some m \<longrightarrow> masks_of (home_x_positive env c s) = masks_of s @
      replicate (if SEARCH_FAST_X c > SEARCH_FEEDRATE_X c then 2 else 1) (spec_endstop_bit X True))
 \<and> (Y_MIN_PIN c \<longrightarrow> masks_of (home_y_negative env c s) = masks_of s @
      replicate (if SEARCH_FAST_Y c > SEARCH_FEEDRATE_Y c then 2 else 1) (spec_endstop_bit Y False))
 \<and> (Y_MAX_PIN c \<and> Y_MAX c = Some m \<longrightarrow> masks_of (home_y_positive env c s) = masks_of s @
      replicate (if SEARCH_FAST_Y c > SEARCH_FEEDRATE_Y c then 2 else 1) (spec_endstop_bit Y True))
 \<and> (Z_MIN_PIN c \<longrightarrow> masks_of (home_z_negative env c s) = masks_of s @
      replicate (if SEARCH_FAST_Z c > SEARCH_FEEDRATE_Z c then 2 else 1) (spec_endstop_bit Z False))
 \<and> (Z_MAX_PIN c \<and> Z_MAX c = Some m \<longrightarrow> masks_of (home_z_positive env c s) = masks_of s @
      replicate (if SEARCH_FAST_Z c > SEARCH_FEEDRATE_Z c then 2 else 1) (spec_endstop_bit Z True))
 \<and> (U_MIN_PIN c \<longrightarrow> masks_of (home_u_negative env c s) = masks_of s @
      replicate (if SEARCH_FAST_U c > SEARCH_FEEDRATE_U c then 2 else 1) (spec_endstop_bit Z False))
 \<and> (U_MAX_PIN c \<and> U_MAX c = Some m \<longrightarrow> masks_of (home_u_positive env c s) = masks_of s @
      replicate (if SEARCH_FAST_U c > SEARCH_FEEDRATE_U c then 2 else 1) (spec_endstop_bit Z True))
 \<and> spec_endstop_bit Z False = 0x10 \<and> spec_endstop_bit Z True = 0x20
 \<and> spec_endstop_bit U False = 0x40 \<and> spec_endstop_bit U True = 0x80"
proof (intro conjI impI)
  show "masks_of (home_x_negative env c s) = masks_of s @
      replicate (if SEARCH_FAST_X c > SEARCH_FEEDRATE_X c then 2 else 1) (spec_endstop_bit X False)"
    if "X_MIN_PIN c"
    using masks_of_trace [OF home_x_negative_trace [OF that]]
    by (simp only: length_spec_two_pass spec_endstop_bits)
  show "masks_of (home_x_positive env c s) = masks_of s @
      replicate (if SEARCH_FAST_X c > SEARCH_FEEDRATE_X c then 2 else 1) (spec_endstop_bit X True)"
    if "X_MAX_PIN c \<and> X_MAX c = Some m"
    using masks_of_trace [OF home_x_positive_trace [of c m]] that
    by (simp only: length_spec_two_pass spec_endstop_bits)
  show "masks_of (home_y_negative env c s) = masks_of s @
      replicate (if SEARCH_FAST_Y c > SEARCH_FEEDRATE_Y c then 2 else 1) (spec_endstop_bit Y False)"
    if "Y_MIN_PIN c"
    using masks_of_trace [OF home_y_negative_trace [OF that]]
    by (simp only: length_spec_two_pass spec_endstop_bits)
  show "masks_of (home_y_positive env c s) = masks_of s @
      replicate (if SEARCH_FAST_Y c > SEARCH_FEEDRATE_Y c then 2 else 1) (spec_endstop_bit Y True)"
    if "Y_MAX_PIN c \<and> Y_MAX c = Some m"
    using masks_of_trace [OF home_y_positive_trace [of c m]] that
    by (simp only: length_spec_two_pass spec_endstop_bits)
  show "masks_of (home_z_negative env c s) = masks_of s @
      replicate (if SEARCH_FAST_Z c > SEARCH_FEEDRATE_Z c then 2 else 1) (spec_endstop_bit Z False)"
    if "Z_MIN_PIN c"
    using masks_of_trace [OF home_z_negative_trace [OF that]]
    by (simp only: length_spec_two_pass spec_endstop_bits)
  show "masks_of (home_z_positive env c s) = masks_of s @
      replicate (if SEARCH_FAST_Z c > SEARCH_FEEDRATE_Z c then 2 else 1) (spec_endstop_bit Z True)"
    if "Z_MAX_PIN c \<and> Z_MAX c = Some m"
    using masks_of_trace [OF home_z_positive_trace [of c m]] that
    by (simp only: length_spec_two_pass spec_endstop_bits)
  show "masks_of (home_u_negative env c s) = masks_of s @
      replicate (if SEARCH_FAST_U c > SEARCH_FEEDRATE_U c then 2 else 1) (spec_endstop_bit Z False)"
    if "U_MIN_PIN c"
    using masks_of_trace [OF home_u_negative_trace [OF that]]
    by (simp only: length_spec_two_pass spec_endstop_bits)
  show "masks_of (home_u_positive env c s) = masks_of s @
      replicate (if SEARCH_FAST_U c > SEARCH_FEEDRATE_U c then 2 else 1) (spec_endstop_bit Z True)"
    if "U_MAX_PIN c \<and> U_MAX c = Some m"
    using masks_of_trace [OF home_u_positive_trace [of c m]] that
    by (simp only: length_spec_two_pass spec_endstop_bits)
qed (simp_all add: spec_endstop_bits)

theorem endstop_masks_passed_witness:
  "U_MIN_PIN example_config
   \<and> U_MAX_PIN example_config \<and> U_MAX example_config = Some 90
   \<and> Z_MIN_PIN example_config
   \<and> masks_of (home_u_negative no_effect example_config example_motion) = [0x10, 0x10]
   \<and> masks_of (home_u_positive no_effect example_config example_motion) = [0x20, 0x20]
   \<and> masks_of (home_z_negative no_effect example_config example_motion) = [0x10, 0x10]
   \<and> masks_of (home_x_negative no_effect example_config example_motion) = [0x01, 0x01]
   \<and> spec_endstop_bit U False = 0x40 \<and> spec_endstop_bit U True = 0x80"
proof -
  have e: "masks_of example_motion = []" by (simp add: masks_of_def homing_moves_def)
  show ?thesis
    using endstop_masks_passed [of example_config no_effect example_motion 90]
    by (simp add: e spec_endstop_bits replicate_two search_fast_defs search_fast_1000_5)
qed

text \<open>
  C6. Every homing routine whose body is compiled enqueues exactly the moves of the
  two-pass sequence for its axis and direction (\<open>spec_two_pass\<close>), in that order and
  nothing else, whatever the callees do: with \<open>SEARCH_FAST > SEARCH_FEEDRATE\<close> a move to
  \<open>\<plusminus>10\<^sup>6\<close> um towards the endstop at \<open>SEARCH_FAST\<close> with the stop condition 1 and then a move
  to the opposite \<open>\<plusminus>10\<^sup>6\<close> um at \<open>SEARCH_FEEDRATE\<close> with the stop condition 0; otherwise the
  one move towards the endstop at \<open>SEARCH_FEEDRATE\<close> with the stop condition 1. The other
  components of each target are those of the position on entry.
\<close>

theorem two_pass_homing:
  "(X_MIN_PIN c \<longrightarrow> moves_of (home_x_negative env c s) = moves_of s @
      spec_two_pass X False (SEARCH_FAST_X c) (SEARCH_FEEDRATE_X c) (startpoint s))
 \<and> (X_MAX_PIN c \<and> X_MAX c = Some m \<longrightarrow> moves_of (home_x_positive env c s) = moves_of s @
      spec_two_pass X True (SEARCH_FAST_X c) (SEARCH_FEEDRATE_X c) (startpoint s))
 \<and> (Y_MIN_PIN c \<longrightarrow> moves_of (home_y_negative env c s) = moves_of s @
      spec_two_pass Y False (SEARCH_FAST_Y c) (SEARCH_FEEDRATE_Y c) (startpoint s))
 \<and> (Y_MAX_PIN c \<and> Y_MAX c = Some m \<longrightarrow> moves_of (home_y_positive env c s) = moves_of s @
      spec_two_pass Y True (SEARCH_FAST_Y c) (SEARCH_FEEDRATE_Y c) (startpoint s))
 \<and> (Z_MIN_PIN c \<longrightarrow> moves_of (home_z_negative env c s) = moves_of s @
      spec_two_pass Z False (SEARCH_FAST_Z c) (SEARCH_FEEDRATE_Z c) (startpoint s))
 \<and> (Z_MAX_PIN c \<and> Z_MAX c = Some m \<longrightarrow> moves_of (home_z_positive env c s) = moves_of s @
      spec_two_pass Z True (SEARCH_FAST_Z c) (SEARCH_FEEDRATE_Z c) (startpoint s))
 \<and> (U_MIN_PIN c \<longrightarrow> moves_of (home_u_negative env c s) = moves_of s @
      spec_two_pass U False (SEARCH_FAST_U c) (SEARCH_FEEDRATE_U c) (startpoint s))
 \<and> (U_MAX_PIN c \<and> U_MAX c = Some m \<longrightarrow> moves_of (home_u_positive env c s) = moves_of s @
      spec_two_pass U True (SEARCH_FAST_U c) (SEARCH_FEEDRATE_U c) (startpoint s))
 \<and> length (spec_two_pass a maximum fast slow sp) = (if fast > slow then 2 else 1)"
proof (intro conjI impI)
  show "moves_of (home_x_negative env c s) = moves_of s @
      spec_two_pass X False (SEARCH_FAST_X c) (SEARCH_FEEDRATE_X c) (startpoint s)"
    if "X_MIN_PIN c"
    using home_x_negative_trace [OF that] by (rule moves_of_trace)
  show "moves_of (home_x_positive env c s) = moves_of s @
      spec_two_pass X True (SEARCH_FAST_X c) (SEARCH_FEEDRATE_X c) (startpoint s)"
    if "X_MAX_PIN c \<and> X_MAX c = Some m"
    using home_x_positive_trace [of c m env s] that by (intro moves_of_trace) simp
  show "moves_of (home_y_negative env c s) = moves_of s @
      spec_two_pass Y False (SEARCH_FAST_Y c) (SEARCH_FEEDRATE_Y c) (startpoint s)"
    if "Y_MIN_PIN c"
    using home_y_negative_trace [OF that] by (rule moves_of_trace)
  show "moves_of (home_y_positive env c s) = moves_of s @
      spec_two_pass Y True (SEARCH_FAST_Y c) (SEARCH_FEEDRATE_Y c) (startpoint s)"
    if "Y_MAX_PIN c \<and> Y_MAX c = Some m"
    using home_y_positive_trace [of c m env s] that by (intro moves_of_trace) simp
  show "moves_of (home_z_negative env c s) = moves_of s @
      spec_two_pass Z False (SEARCH_FAST_Z c) (SEARCH_FEEDRATE_Z c) (startpoint s)"
    if "Z_MIN_PIN c"
    using home_z_negative_trace [OF that] by (rule moves_of_trace)
  show "moves_of (home_z_positive env c s) = moves_of s @
      spec_two_pass Z True (SEARCH_FAST_Z c) (SEARCH_FEEDRATE_Z c) (startpoint s)"
    if "Z_MAX_PIN c \<and> Z_MAX c = Some m"
    using home_z_positive_trace [of c m env s] that by (intro moves_of_trace) simp
  show "moves_of (home_u_negative env c s) = moves_of s @
      spec_two_pass U False (SEARCH_FAST_U c) (SEARCH_FEEDRATE_U c) (startpoint s)"
    if "U_MIN_PIN c"
    using home_u_negative_trace [OF that] by (rule moves_of_trace)
  show "moves_of (home_u_positive env c s) = moves_of s @
      spec_two_pass U True (SEARCH_FAST_U c) (SEARCH_FEEDRATE_U c) (startpoint s)"
    if "U_MAX_PIN c \<and> U_MAX c = Some m"
    using home_u_positive_trace [of c m env s] that by (intro moves_of_trace) simp
  show "length (spec_two_pass a maximum fast slow sp) = (if fast > slow then 2 else 1)"
    by (rule length_spec_two_pass)
qed

theorem two_pass_homing_witness:
  "X_MIN_PIN example_config
   \<and> U_MAX_PIN example_config \<and> U_MAX example_config = Some 90
   \<and> SEARCH_FAST_X example_config > SEARCH_FEEDRATE_X example_config
   \<and> length (moves_of (home_x_negative no_effect example_config example_motion)) = 2
   \<and> map (\<lambda>(t, endstop_stop_cond). (axis t X, axis t Y, axis t Z, axis t U, F t, endstop_stop_cond))
        (moves_of (home_x_negative no_effect example_config example_motion))
      = [(- 1000000, 34000, 5000, 700, 189, 1), (1000000, 34000, 5000, 700, 100, 0)]
   \<and> map (\<lambda>(t, endstop_stop_cond). (axis t X, axis t Y, axis t Z, axis t U, F t, endstop_stop_cond))
        (moves_of (home_u_positive no_effect example_config example_motion))
      = [(12000, 34000, 5000, 1000000, 189, 1), (12000, 34000, 5000, - 1000000, 100, 0)]
   \<and> map (\<lambda>(t, endstop_stop_cond). (axis t X, axis t Y, axis t Z, axis t U, F t, endstop_stop_cond))
        (moves_of (home_x_negative no_effect (example_config\<lparr>SEARCH_FEEDRATE_X := 200\<rparr>) example_motion))
      = [(- 1000000, 34000, 5000, 700, 200, 1)]"
  using two_pass_homing [of example_config no_effect example_motion 90]
    two_pass_homing [of "example_config\<lparr>SEARCH_FEEDRATE_X := 200\<rparr>" no_effect example_motion 90]
  by (simp add: moves_of_def homing_moves_def spec_two_pass_def search_fast_defs search_fast_1000_5)

text \<open>
  C7, as amended. For every axis the fast search feedrate is the value of the one
  expression \<open>60 * sqrt (2 * ACCELERATION * ENDSTOP_CLEARANCE / 1000)\<close> computed in
  \<^verbatim>\<open>double\<close>, every operation rounded to \<^verbatim>\<open>DBL_MANT_DIG\<close> digits, with the fraction then
  dropped. For an acceleration and a clearance that are not negative that \<^verbatim>\<open>double\<close> lies
  within the factors \<open>(1 \<plusminus> 2 powr (- DBL_MANT_DIG)) ^ 5\<close> of the exact expression, so the
  feedrate is at most the upper end and more than the lower end less one (as long as the
  upper end is below \<open>2\<^sup>3\<^sup>2\<close>). It need not be the exact expression with its fraction
  dropped: for an acceleration of 1369 and a clearance of 5 the exact expression is 222
  and an IEEE double gives 221, a \<^verbatim>\<open>double\<close> of 24 digits 222. With \<open>ACCELERATION = 1000\<close>
  and \<open>ENDSTOP_CLEARANCE = 5\<close> the feedrate is 189 (the expression is about 189.7) for
  every \<^verbatim>\<open>double\<close> of at least 24 digits; 1897 is its value for a clearance of 500, and
  6000 for a clearance of 5000.
\<close>

theorem search_fast_formula:
  "SEARCH_FAST_X c = SEARCH_FAST (DBL_MANT_DIG c) (ACCELERATION c) (ENDSTOP_CLEARANCE_X c)
 \<and> SEARCH_FAST_Y c = SEARCH_FAST (DBL_MANT_DIG c) (ACCELERATION c) (ENDSTOP_CLEARANCE_Y c)
 \<and> SEARCH_FAST_Z c = SEARCH_FAST (DBL_MANT_DIG c) (ACCELERATION c) (ENDSTOP_CLEARANCE_Z c)
 \<and> SEARCH_FAST_U c = SEARCH_FAST (DBL_MANT_DIG c) (ACCELERATION c) (ENDSTOP_CLEARANCE_U c)
 \<and> (0 \<le> a \<and> 0 \<le> cl
      \<and> 60 * sqrt (2 * a * cl / 1000) * (1 + 2 powr (- real p)) ^ 5 < 4294967296 \<longrightarrow>
      real (unat (SEARCH_FAST p a cl)) = of_int \<lfloor>search_fast_double p a cl\<rfloor>
    \<and> 60 * sqrt (2 * a * cl / 1000) * (1 - 2 powr (- real p)) ^ 5 \<le> search_fast_double p a cl
    \<and> search_fast_double p a cl \<le> 60 * sqrt (2 * a * cl / 1000) * (1 + 2 powr (- real p)) ^ 5
    \<and> real (unat (SEARCH_FAST p a cl)) \<le> 60 * sqrt (2 * a * cl / 1000) * (1 + 2 powr (- real p)) ^ 5
    \<and> 60 * sqrt (2 * a * cl / 1000) * (1 - 2 powr (- real p)) ^ 5 < real (unat (SEARCH_FAST p a cl)) + 1)
 \<and> (24 \<le> p \<longrightarrow> SEARCH_FAST p 1000 5 = 189 \<and> SEARCH_FAST p 1000 500 = 1897
      \<and> SEARCH_FAST p 1000 5000 = 6000)
 \<and> 60 * sqrt (2 * 1369 * 5 / 1000) = (222::real)
 \<and> SEARCH_FAST 53 1369 5 = 221 \<and> SEARCH_FAST 24 1369 5 = 222"
proof (intro conjI impI)
  assume h: "0 \<le> a \<and> 0 \<le> cl
      \<and> 60 * sqrt (2 * a * cl / 1000) * (1 + 2 powr (- real p)) ^ 5 < 4294967296"
  then have a: "0 \<le> a" and c: "0 \<le> cl"
    and r: "60 * sqrt (2 * a * cl / 1000) * (1 + 2 powr (- real p)) ^ 5 < 4294967296"
    by simp_all
  show "real (unat (SEARCH_FAST p a cl)) = of_int \<lfloor>search_fast_double p a cl\<rfloor>"
    using a c r by (rule search_fast_bounds(1))
  show "60 * sqrt (2 * a * cl / 1000) * (1 - 2 powr (- real p)) ^ 5 \<le> search_fast_double p a cl"
    using a c by (rule search_fast_double_bounds(1))
  show "search_fast_double p a cl \<le> 60 * sqrt (2 * a * cl / 1000) * (1 + 2 powr (- real p)) ^ 5"
    using a c by (rule search_fast_double_bounds(2))
  show "real (unat (SEARCH_FAST p a cl)) \<le> 60 * sqrt (2 * a * cl / 1000) * (1 + 2 powr (- real p)) ^ 5"
    using a c r by (rule search_fast_bounds(2))
  show "60 * sqrt (2 * a * cl / 1000) * (1 - 2 powr (- real p)) ^ 5 < real (unat (SEARCH_FAST p a cl)) + 1"
    using a c r by (rule search_fast_bounds(3))
next
  assume "24 \<le> p"
  then show "SEARCH_FAST p 1000 5 = 189" by (rule search_fast_1000_5)
next
  assume "24 \<le> p"
  then show "SEARCH_FAST p 1000 500 = 1897" by (rule search_fast_1000_500)
next
  assume "24 \<le> p"
  then show "SEARCH_FAST p 1000 5000 = 6000" by (rule search_fast_1000_5000)
qed (simp_all only: SEARCH_FAST_X_def SEARCH_FAST_Y_def SEARCH_FAST_Z_def SEARCH_FAST_U_def
    exact_1369_5 search_fast_53_1369_5 search_fast_24_1369_5)

theorem search_fast_formula_witness:
  "(0::real) \<le> 1000 \<and> (0::real) \<le> 5
   \<and> 60 * sqrt (2 * 1000 * 5 / 1000) * (1 + 2 powr (- real 53)) ^ 5 < (4294967296::real)
   \<and> (24::nat) \<le> 53
   \<and> SEARCH_FAST_X example_config = SEARCH_FAST 53 1000 5
   \<and> unat (SEARCH_FAST 53 1000 5) = 189
   \<and> real (unat (SEARCH_FAST 53 1000 5))
       \<le> 60 * sqrt (2 * 1000 * 5 / 1000) * (1 + 2 powr (- real 53)) ^ 5
   \<and> 60 * sqrt (2 * 1000 * 5 / 1000) * (1 - 2 powr (- real 53)) ^ 5
       < real (unat (SEARCH_FAST 53 1000 5)) + 1"
proof -
  have "sqrt (10::real) < 4" by (rule real_less_lsqrt) simp_all
  then have s: "60 * sqrt (2 * 1000 * 5 / 1000) \<le> (240::real)" by simp
  have "(2::real) powr (- real 53) \<le> 2 powr 0" by (rule powr_mono) simp_all
  then have "1 + (2::real) powr (- real 53) \<le> 2" by simp
  then have "(1 + (2::real) powr (- real 53)) ^ 5 \<le> 2 ^ 5" by (intro power_mono) simp_all
  then have u: "(1 + (2::real) powr (- real 53)) ^ 5 \<le> 32" by simp
  have "60 * sqrt (2 * 1000 * 5 / 1000) * (1 + 2 powr (- real 53)) ^ 5 \<le> (240::real) * 32"
    using s u by (intro mult_mono) simp_all
  then have h: "60 * sqrt (2 * 1000 * 5 / 1000) * (1 + 2 powr (- real 53)) ^ 5 < (4294967296::real)"
    by linarith
  note t = search_fast_formula [of example_config 1000 5 53]
  have x: "SEARCH_FAST_X example_config = SEARCH_FAST 53 1000 5" using t by simp
  have v: "unat (SEARCH_FAST 53 1000 5) = 189" using t by simp
  show ?thesis using t h x v by simp
qed

text \<open>
  C7 as it is stated fails at its example, with either \<^verbatim>\<open>double\<close>: with \<open>ACCELERATION =
  1000\<close> and \<open>ENDSTOP_CLEARANCE = 5\<close> the feedrate is 189, not about 1897. And the feedrate
  is not always the exact expression with its fraction dropped: with an IEEE double, an
  acceleration of 1369 and a clearance of 5 it is 221, and the exact expression is 222.
\<close>

theorem search_fast_example_counterexample:
  "unat (SEARCH_FAST 53 1000 5) = 189
   \<and> \<not> (1896 \<le> unat (SEARCH_FAST 53 1000 5) \<and> unat (SEARCH_FAST 53 1000 5) \<le> 1898)
   \<and> unat (SEARCH_FAST 24 1000 5) = 189
   \<and> \<not> (1896 \<le> unat (SEARCH_FAST 24 1000 5) \<and> unat (SEARCH_FAST 24 1000 5) \<le> 1898)
   \<and> \<lfloor>60 * sqrt (2 * 1369 * 5 / 1000) :: real\<rfloor> = 222
   \<and> unat (SEARCH_FAST 53 1369 5) = 221"
  using floor_exact_1369_5 by (simp add: search_fast_1000_5 search_fast_53_1369_5)

text \<open>
  C8, as amended. With \<^verbatim>\<open>X_MIN_PIN\<close> defined, \<open>home_x_negative\<close> does this and nothing else,
  in this order: it enqueues the moves of the two-pass sequence, calls \<open>queue_wait\<close>, writes
  one value to \<open>next_target.target.axis[X]\<close> and to \<open>startpoint.axis[X]\<close>, and calls
  \<open>dda_new_startpoint\<close>. The value is 0 when \<^verbatim>\<open>X_MIN\<close> is not defined, and otherwise the
  \<^verbatim>\<open>double\<close> product \<open>X_MIN * 1000.0\<close> with its fraction dropped: \<open>X_MIN * 1000\<close> exactly for
  a whole number of millimetres \<open>k\<close> with \<open>\<bar>k * 1000\<bar> < 2 ^ DBL_MANT_DIG\<close> (and within
  \<^verbatim>\<open>int32_t\<close>). The routine itself writes no other component of \<open>startpoint\<close>; what
  \<open>startpoint\<close> holds on return is as the callees leave it: \<open>startpoint.axis[X]\<close> (and
  likewise \<open>next_target.target.axis[X]\<close>) is the value written if \<open>dda_new_startpoint\<close>
  leaves it alone, and another axis is as on entry if every callee leaves it alone or,
  being \<open>enqueue_home\<close>, sets it from the target it is passed; the feedrate of \<open>startpoint\<close>
  is as on entry if every callee leaves it alone.
\<close>

theorem home_x_negative_origin:
  assumes "X_MIN_PIN c"
  shows "trace (home_x_negative env c s) = trace s @
           map (\<lambda>(t, endstop_stop_cond). Called (Call_enqueue_home t 0x01 endstop_stop_cond))
             (spec_two_pass X False (SEARCH_FAST_X c) (SEARCH_FEEDRATE_X c) (startpoint s))
           @ [Called Call_queue_wait,
              Wrote_next_target_axis X (min_um (DBL_MANT_DIG c) (X_MIN c)),
              Wrote_startpoint_axis X (min_um (DBL_MANT_DIG c) (X_MIN c)),
              Called Call_dda_new_startpoint]
       \<and> min_um (DBL_MANT_DIG c) (X_MIN c)
           = (case X_MIN c of
                Some x_min \<Rightarrow> int32_of_double (fl (DBL_MANT_DIG c) (fl (DBL_MANT_DIG c) x_min * 1000))
              | None \<Rightarrow> 0)
       \<and> (\<forall>k. X_MIN c = Some (of_int k) \<and> \<bar>k * 1000\<bar> < 2 ^ DBL_MANT_DIG c
              \<and> - 2147483 \<le> k \<and> k \<le> 2147483 \<longrightarrow>
            sint (min_um (DBL_MANT_DIG c) (X_MIN c)) = k * 1000)
       \<and> ((\<forall>s'. axis (startpoint (env Call_dda_new_startpoint s')) X = axis (startpoint s') X) \<longrightarrow>
            axis (startpoint (home_x_negative env c s)) X = min_um (DBL_MANT_DIG c) (X_MIN c))
       \<and> ((\<forall>s'. axis (target (next_target (env Call_dda_new_startpoint s'))) X
                  = axis (target (next_target s')) X) \<longrightarrow>
            axis (target (next_target (home_x_negative env c s))) X
              = min_um (DBL_MANT_DIG c) (X_MIN c))
       \<and> (\<forall>a. a \<noteq> X
              \<and> (\<forall>cl s'. axis (startpoint (env cl s')) a = axis (startpoint s') a
                   \<or> (\<exists>t m sc. cl = Call_enqueue_home t m sc
                        \<and> axis (startpoint (env cl s')) a = axis t a)) \<longrightarrow>
            axis (startpoint (home_x_negative env c s)) a = axis (startpoint s) a)
       \<and> ((\<forall>cl s'. F (startpoint (env cl s')) = F (startpoint s')) \<longrightarrow>
            F (startpoint (home_x_negative env c s)) = F (startpoint s))"
proof -
  have t: "trace (home_x_negative env c s) = trace s @
           map (\<lambda>(t, endstop_stop_cond). Called (Call_enqueue_home t 0x01 endstop_stop_cond))
             (spec_two_pass X False (SEARCH_FAST_X c) (SEARCH_FEEDRATE_X c) (startpoint s))
           @ [Called Call_queue_wait,
              Wrote_next_target_axis X (min_um (DBL_MANT_DIG c) (X_MIN c)),
              Wrote_startpoint_axis X (min_um (DBL_MANT_DIG c) (X_MIN c)),
              Called Call_dda_new_startpoint]"
    using home_x_negative_trace [OF assms, of env s] by (simp only: homing_trace_def)
  have v: "min_um (DBL_MANT_DIG c) (X_MIN c)
           = (case X_MIN c of
                Some x_min \<Rightarrow> int32_of_double (fl (DBL_MANT_DIG c) (fl (DBL_MANT_DIG c) x_min * 1000))
              | None \<Rightarrow> 0)"
    by (simp add: min_um_def um_of_mm_def split: option.split)
  have k: "\<forall>k. X_MIN c = Some (of_int k) \<and> \<bar>k * 1000\<bar> < 2 ^ DBL_MANT_DIG c
              \<and> - 2147483 \<le> k \<and> k \<le> 2147483 \<longrightarrow>
            sint (min_um (DBL_MANT_DIG c) (X_MIN c)) = k * 1000"
    by (simp add: min_um_def um_of_mm_whole)
  have x: "(\<forall>s'. axis (startpoint (env Call_dda_new_startpoint s')) X = axis (startpoint s') X) \<longrightarrow>
            axis (startpoint (home_x_negative env c s)) X = min_um (DBL_MANT_DIG c) (X_MIN c)"
    using assms by (intro impI home_x_negative_value)
  have n: "(\<forall>s'. axis (target (next_target (env Call_dda_new_startpoint s'))) X
                  = axis (target (next_target s')) X) \<longrightarrow>
            axis (target (next_target (home_x_negative env c s))) X
              = min_um (DBL_MANT_DIG c) (X_MIN c)"
    using assms by (intro impI home_x_negative_next_target)
  have o: "\<forall>a. a \<noteq> X
              \<and> (\<forall>cl s'. axis (startpoint (env cl s')) a = axis (startpoint s') a
                   \<or> (\<exists>t m sc. cl = Call_enqueue_home t m sc
                        \<and> axis (startpoint (env cl s')) a = axis t a)) \<longrightarrow>
            axis (startpoint (home_x_negative env c s)) a = axis (startpoint s) a"
    using assms by (intro allI impI home_x_negative_frame) simp_all
  have f: "(\<forall>cl s'. F (startpoint (env cl s')) = F (startpoint s')) \<longrightarrow>
            F (startpoint (home_x_negative env c s)) = F (startpoint s)"
    using assms by (simp add: home_x_negative_def home_defs)
  show ?thesis using t v k x n o f by (intro conjI)
qed

theorem home_x_negative_origin_witness:
  "X_MIN_PIN example_config
   \<and> X_MIN example_config = Some (of_int (- 10))
   \<and> \<bar>- 10 * 1000 :: int\<bar> < 2 ^ DBL_MANT_DIG example_config
   \<and> (\<forall>cl s'. startpoint (no_effect cl s') = startpoint s')
   \<and> (\<forall>cl s'. next_target (no_effect cl s') = next_target s')
   \<and> trace (home_x_negative no_effect example_config example_motion)
      = [Called (Call_enqueue_home
           (example_position\<lparr>axis := (axis example_position)(X := - 1000000), F := 189\<rparr>) 0x01 1),
         Called (Call_enqueue_home
           (example_position\<lparr>axis := (axis example_position)(X := 1000000), F := 100\<rparr>) 0x01 0),
         Called Call_queue_wait,
         Wrote_next_target_axis X (- 10000), Wrote_startpoint_axis X (- 10000),
         Called Call_dda_new_startpoint]
   \<and> min_um (DBL_MANT_DIG example_config) (X_MIN example_config) = - 10000
   \<and> sint (min_um (DBL_MANT_DIG example_config) (X_MIN example_config)) = - 10 * 1000
   \<and> axis (startpoint (home_x_negative no_effect example_config example_motion)) X = - 10000
   \<and> axis (target (next_target (home_x_negative no_effect example_config example_motion))) X = - 10000
   \<and> axis (startpoint (home_x_negative no_effect example_config example_motion)) Y = 34000
   \<and> axis (startpoint (home_x_negative no_effect example_config example_motion)) Z = 5000
   \<and> axis (startpoint (home_x_negative no_effect example_config example_motion)) U = 700
   \<and> axis (startpoint (home_x_negative no_effect example_config example_motion)) E = 0
   \<and> F (startpoint (home_x_negative no_effect example_config example_motion)) = 1500"
proof -
  have w: "um_of_mm 53 (- 10) = - 10000"
    using um_of_mm_of_int [of "- 10" 53] by simp
  have w': "int32_of_double (fl 53 (fl 53 (- 10) * 1000)) = - 10000"
    using w by (simp only: um_of_mm_def)
  have v: "min_um 53 (Some (- 10)) = - 10000"
    by (simp add: min_um_def w)
  note t = home_x_negative_origin [of example_config no_effect example_motion]
  show ?thesis
    using t t [THEN conjunct2, THEN conjunct2, THEN conjunct2, THEN conjunct2,
        THEN conjunct2, THEN conjunct1, rule_format, of Y]
      t [THEN conjunct2, THEN conjunct2, THEN conjunct2, THEN conjunct2,
        THEN conjunct2, THEN conjunct1, rule_format, of Z]
      t [THEN conjunct2, THEN conjunct2, THEN conjunct2, THEN conjunct2,
        THEN conjunct2, THEN conjunct1, rule_format, of U]
      t [THEN conjunct2, THEN conjunct2, THEN conjunct2, THEN conjunct2,
        THEN conjunct2, THEN conjunct1, rule_format, of E]
    by (simp add: v w' no_effect_def spec_two_pass_def search_fast_defs search_fast_1000_5)
qed

text \<open>
  C8 as it is stated fails where \<open>X_MIN * 1000\<close> is not a \<^verbatim>\<open>double\<close>: with \<^verbatim>\<open>X_MIN\<close> 2.01 and
  an IEEE double \<open>startpoint.axis[X]\<close> is set to 2009, and 2.01 mm is 2010 um; with
  \<^verbatim>\<open>X_MIN\<close> 8.03 it is set to 8029, with an IEEE double and with one of 24 digits.
\<close>

theorem home_x_negative_origin_counterexample:
  "X_MIN_PIN example_config
   \<and> axis (startpoint (home_x_negative no_effect
        (example_config\<lparr>X_MIN := Some (201 / 100)\<rparr>) example_motion)) X = 2009
   \<and> (201 / 100 * 1000 :: real) = 2010
   \<and> axis (startpoint (home_x_negative no_effect
        (example_config\<lparr>X_MIN := Some (803 / 100)\<rparr>) example_motion)) X = 8029
   \<and> axis (startpoint (home_x_negative no_effect
        (example_config\<lparr>X_MIN := Some (803 / 100), DBL_MANT_DIG := 24\<rparr>) example_motion)) X = 8029
   \<and> (803 / 100 * 1000 :: real) = 8030"
  by (simp add: home_x_negative_def home_defs no_effect_def min_um_def
      um_of_mm_53_201 um_of_mm_53_803 um_of_mm_24_803)

end
